theory Spec2Isabelle
  imports Complex_Main "HOL-Library.Word" "HOL-Library.Log_Nat" "HOL-Library.Sublist"
begin

unbundle bit_operations_syntax

section \<open>The Seplos V3 sniffer: framing, CRC, decoding and update gate\<close>

text \<open>
  The development embeds the adapter class \<^verbatim>\<open>SeplosV3Sniffer\<close> in its latest revision
  (the one that knows the three frame kinds 0x24, 0x34 and 0x12). The earlier revision
  kept as \<^verbatim>\<open>src/main.js\<close> has the same \<^verbatim>\<open>processStream\<close>, \<^verbatim>\<open>validateCRC\<close>,
  \<^verbatim>\<open>calculateModbusCRC\<close>, telemetry decoders and update gate; it accepts only the two
  function-0x04 headers (see \<open>isValidHeader_main\<close> below). The oldest revision shares the
  loop of \<^verbatim>\<open>processStream\<close>, the CRC code, the scaling of the fields and the condition
  of the update gate with them.

  Bytes of the serial stream are \<open>8 word\<close>. The bitwise operators of JavaScript work
  on 32-bit two's complement integers, so every value they touch is a \<open>32 word\<close>,
  read back as a number with \<open>sint\<close>.
\<close>

type_synonym byte = "8 word"
type_synonym int32 = "32 word"

subsection \<open>Array reads\<close>

text \<open>
  \<^verbatim>\<open>buffer[i]\<close> on an array or a Buffer is \<^verbatim>\<open>undefined\<close> outside its range, also at a
  negative index; \<open>None\<close> stands for \<^verbatim>\<open>undefined\<close>.
\<close>

definition js_at :: "byte list \<Rightarrow> int \<Rightarrow> byte option" where
  "js_at buffer i = (if 0 \<le> i \<and> i < int (length buffer) then Some (buffer ! nat i) else None)"

text \<open>A bitwise operator turns \<^verbatim>\<open>undefined\<close> into 0 and a byte into itself.\<close>

definition toInt32 :: "byte option \<Rightarrow> int32" where
  "toInt32 v = (case v of None \<Rightarrow> 0 | Some b \<Rightarrow> ucast b)"

text \<open>
  \<^verbatim>\<open>buffer.slice(0, end)\<close>: a negative \<^verbatim>\<open>end\<close> counts from the end of the array, and
  the result is cut to the array.
\<close>

definition slice0 :: "byte list \<Rightarrow> int \<Rightarrow> byte list" where
  "slice0 buffer e =
     (if e < 0 then take (nat (int (length buffer) + e)) buffer else take (nat e) buffer)"

subsection \<open>Header check and declared length\<close>

definition address_ok :: "byte option \<Rightarrow> bool" where
  "address_ok v = (case v of None \<Rightarrow> False | Some b \<Rightarrow> 0x01 \<le> b \<and> b \<le> 0x10)"

definition isValidHeader :: "byte list \<Rightarrow> bool" where
  "isValidHeader buffer =
     ((address_ok (js_at buffer 0) \<and> js_at buffer 1 = Some 0x04 \<and>
         (js_at buffer 2 = Some 0x24 \<or> js_at buffer 2 = Some 0x34)) \<or>
      (address_ok (js_at buffer 0) \<and> js_at buffer 1 = Some 0x01 \<and> js_at buffer 2 = Some 0x12))"

definition getExpectedLength :: "byte list \<Rightarrow> int" where
  "getExpectedLength buffer =
     (if js_at buffer 2 = Some 0x24 then 41
      else if js_at buffer 2 = Some 0x34 then 57
      else if js_at buffer 1 = Some 0x01 \<and> js_at buffer 2 = Some 0x12 then 23
      else 0)"

subsection \<open>CRC\<close>

text \<open>One pass of the inner loop: the test of the low bit, the shift and the conditional XOR.\<close>

definition crc_shift :: "int32 \<Rightarrow> int32" where
  "crc_shift crc =
     (if crc AND 0x0001 \<noteq> 0 then signed_drop_bit 1 crc XOR 0xa001 else signed_drop_bit 1 crc)"

text \<open>The body of the outer loop: \<^verbatim>\<open>crc ^= data[i]\<close>, then the inner loop for j = 0..7.\<close>

definition crc_byte :: "int32 \<Rightarrow> byte \<Rightarrow> int32" where
  "crc_byte crc b = (crc_shift ^^ 8) (crc XOR ucast b)"

definition calculateModbusCRC :: "byte list \<Rightarrow> int" where
  "calculateModbusCRC data = sint (foldl crc_byte 0xffff data)"

definition receivedCRC :: "byte list \<Rightarrow> int \<Rightarrow> int" where
  "receivedCRC buffer len =
     sint (push_bit 8 (toInt32 (js_at buffer (len - 1))) OR toInt32 (js_at buffer (len - 2)))"

definition validateCRC :: "byte list \<Rightarrow> int \<Rightarrow> bool" where
  "validateCRC buffer len =
     (receivedCRC buffer len = calculateModbusCRC (slice0 buffer (len - 2)))"

subsection \<open>The synchronizer\<close>

text \<open>
  The body of the loop of \<^verbatim>\<open>processStream\<close> for one byte. It returns the new working
  buffer and, when \<^verbatim>\<open>processPacket\<close> is called, the frame it is called with.
\<close>

definition processByte :: "byte list \<Rightarrow> byte \<Rightarrow> byte list \<times> byte list option" where
  "processByte buffer b =
     (let buffer1 = buffer @ [b] in
      if length buffer1 \<ge> 5 then
        if \<not> isValidHeader buffer1 then (tl buffer1, None)
        else
          let expectedLength = getExpectedLength buffer1 in
          if int (length buffer1) \<ge> expectedLength then
            ([], if validateCRC buffer1 expectedLength
                 then Some (slice0 buffer1 expectedLength) else None)
          else (buffer1, None)
      else (buffer1, None))"

text \<open>
  \<^verbatim>\<open>processStream(data)\<close>: the loop over the bytes of a chunk. The result is the working
  buffer afterwards and the frames handed to \<^verbatim>\<open>processPacket\<close>, in order.
\<close>

fun processStream :: "byte list \<Rightarrow> byte list \<Rightarrow> byte list \<times> byte list list" where
  "processStream buffer [] = (buffer, [])"
| "processStream buffer (b # data) =
     (case processByte buffer b of
        (buffer', None) \<Rightarrow> processStream buffer' data
      | (buffer', Some frame) \<Rightarrow>
          (case processStream buffer' data of (buffer'', frames) \<Rightarrow> (buffer'', frame # frames)))"

subsection \<open>Numbers\<close>

text \<open>
  A JavaScript number is an IEEE 754 binary64 value. The numbers of the decoder are finite,
  so a number is modelled by the real number it denotes, and every arithmetic operation
  computes the exact result and rounds it to the nearest binary64 value, ties to even.
  \<open>ilog2 x\<close> is the exponent \<open>e\<close> with \<open>2 ^ e \<le> \<bar>x\<bar> < 2 ^ (e + 1)\<close>; a binary64 value with
  this exponent is a multiple of \<open>2 ^ (e - 52)\<close>. The exponent range of binary64
  (-1022 to 1023) is left out: the decoder's values are 0 or of a magnitude between 0.001
  and 655350.
\<close>

definition ilog2 :: "real \<Rightarrow> int" where
  "ilog2 x = (if 1 \<le> \<bar>x\<bar> then bitlen \<lfloor>\<bar>x\<bar>\<rfloor> - 1 else - bitlen (\<lceil>1 / \<bar>x\<bar>\<rceil> - 1))"

definition round_even :: "real \<Rightarrow> int" where
  "round_even z =
     (let f = \<lfloor>z\<rfloor>; r = z - of_int f in
      if r < 1 / 2 then f else if 1 / 2 < r then f + 1 else if even f then f else f + 1)"

definition fl :: "real \<Rightarrow> real" where
  "fl x = (if x = 0 then 0
           else let u = 2 powi (ilog2 x - 52) in of_int (round_even (x / u)) * u)"

text \<open>Division and subtraction of numbers, and a decimal literal of the source.\<close>

definition js_div :: "real \<Rightarrow> real \<Rightarrow> real" where
  "js_div a b = fl (a / b)"

definition js_sub :: "real \<Rightarrow> real \<Rightarrow> real" where
  "js_sub a b = fl (a - b)"

definition js_lit :: "real \<Rightarrow> real" where
  "js_lit x = fl x"

subsection \<open>Strings\<close>

text \<open>A number in a template string or in \<^verbatim>\<open>join\<close>: the decimal digits of an integer.\<close>

definition digit_char :: "nat \<Rightarrow> char" where
  "digit_char d = ''0123456789'' ! d"

fun show_nat :: "nat \<Rightarrow> string" where
  "show_nat n = (if n < 10 then [digit_char n] else show_nat (n div 10) @ [digit_char (n mod 10)])"

declare show_nat.simps [simp del]

definition show_int :: "int \<Rightarrow> string" where
  "show_int i = (if i < 0 then CHR ''-'' # show_nat (nat (- i)) else show_nat (nat i))"

text \<open>\<^verbatim>\<open>Array.prototype.join\<close> on strings.\<close>

fun join :: "string \<Rightarrow> string list \<Rightarrow> string" where
  "join sep [] = []"
| "join sep [x] = x"
| "join sep (x # y # ys) = x @ sep @ join sep (y # ys)"

subsection \<open>Reading a Buffer\<close>

text \<open>
  \<^verbatim>\<open>readUInt16BE\<close> and \<^verbatim>\<open>readInt16BE\<close> read two bytes, high byte first, as an
  unsigned or as a two's complement number, and throw a RangeError when the two bytes are
  not inside the Buffer.
\<close>

datatype error = RangeError

definition u16 :: "byte list \<Rightarrow> nat \<Rightarrow> int" where
  "u16 buffer offset = uint (buffer ! offset) * 256 + uint (buffer ! (offset + 1))"

definition i16 :: "byte list \<Rightarrow> nat \<Rightarrow> int" where
  "i16 buffer offset = (let v = u16 buffer offset in if 32768 \<le> v then v - 65536 else v)"

definition readUInt16BE :: "byte list \<Rightarrow> nat \<Rightarrow> error + int" where
  "readUInt16BE buffer offset =
     (if offset + 2 \<le> length buffer then Inr (u16 buffer offset) else Inl RangeError)"

definition readInt16BE :: "byte list \<Rightarrow> nat \<Rightarrow> error + int" where
  "readInt16BE buffer offset =
     (if offset + 2 \<le> length buffer then Inr (i16 buffer offset) else Inl RangeError)"

subsection \<open>Decoded records\<close>

datatype jsvalue = Number real | String string | Boolean bool

record update =
  upd_value :: jsvalue
  upd_unit :: "string option"
  upd_role :: string
  upd_ctype :: string

text \<open>
  One entry of the object literal \<^verbatim>\<open>updates\<close> of a numeric frame: the key, the read, the
  scaling applied to the raw value, the unit and the role. The read may throw.
\<close>

definition num_entry ::
    "string \<Rightarrow> error + int \<Rightarrow> (real \<Rightarrow> real) \<Rightarrow> string \<Rightarrow> string \<Rightarrow> error + (string \<times> update)" where
  "num_entry key rd scale unit role =
     (case rd of
        Inl e \<Rightarrow> Inl e
      | Inr raw \<Rightarrow>
          Inr (key, \<lparr>upd_value = Number (scale (of_int raw)), upd_unit = Some unit,
                     upd_role = role, upd_ctype = ''number''\<rparr>))"

text \<open>The entries of an object literal are evaluated in order; the first throw ends it.\<close>

fun collect :: "(error + 'a) list \<Rightarrow> error + 'a list" where
  "collect [] = Inr []"
| "collect (Inl e # _) = Inl e"
| "collect (Inr x # rs) = (case collect rs of Inl e \<Rightarrow> Inl e | Inr xs \<Rightarrow> Inr (x # xs))"

definition degC :: string where
  "degC = [CHR 0xB0, CHR ''C'']"

definition celsius :: "real \<Rightarrow> real" where
  "celsius raw = js_sub (js_div raw 10) (js_lit (27315 / 100))"

subsection \<open>Pack telemetry (0x24)\<close>

definition decode_0x24 :: "string \<Rightarrow> byte list \<Rightarrow> error + (string \<times> update) list" where
  "decode_0x24 bmsFolder buffer = collect
     [num_entry (bmsFolder @ ''.pack_voltage'') (readUInt16BE buffer 3)
        (\<lambda>raw. js_div raw 100) ''V'' ''value.voltage'',
      num_entry (bmsFolder @ ''.current'') (readInt16BE buffer 5)
        (\<lambda>raw. js_div raw 100) ''A'' ''value.current'',
      num_entry (bmsFolder @ ''.remaining_capacity'') (readUInt16BE buffer 7)
        (\<lambda>raw. js_div raw 100) ''Ah'' ''value'',
      num_entry (bmsFolder @ ''.total_capacity'') (readUInt16BE buffer 9)
        (\<lambda>raw. js_div raw 100) ''AH'' ''value'',
      num_entry (bmsFolder @ ''.total_discharge_capacity'') (readUInt16BE buffer 11)
        (\<lambda>raw. js_div raw (js_lit (1 / 10))) ''AH'' ''value'',
      num_entry (bmsFolder @ ''.soc'') (readUInt16BE buffer 13)
        (\<lambda>raw. js_div raw 10) ''%'' ''value'',
      num_entry (bmsFolder @ ''.soh'') (readUInt16BE buffer 15)
        (\<lambda>raw. js_div raw 10) ''%'' ''value'',
      num_entry (bmsFolder @ ''.cycle_count'') (readUInt16BE buffer 17)
        (\<lambda>raw. raw) ''cycles'' ''value'',
      num_entry (bmsFolder @ ''.average_cell_voltage'') (readUInt16BE buffer 19)
        (\<lambda>raw. js_div raw 1000) ''V'' ''value.voltage'',
      num_entry (bmsFolder @ ''.average_cell_temp'') (readInt16BE buffer 21)
        celsius degC ''value.temperature'',
      num_entry (bmsFolder @ ''.max_cell_voltage'') (readUInt16BE buffer 23)
        (\<lambda>raw. js_div raw 1000) ''V'' ''value.voltage'',
      num_entry (bmsFolder @ ''.min_cell_voltage'') (readUInt16BE buffer 25)
        (\<lambda>raw. js_div raw 1000) ''V'' ''value.voltage'',
      num_entry (bmsFolder @ ''.max_cell_temp'') (readUInt16BE buffer 27)
        celsius degC ''value.temperature'',
      num_entry (bmsFolder @ ''.min_cell_temp'') (readUInt16BE buffer 29)
        celsius degC ''value.temperature'',
      num_entry (bmsFolder @ ''.maxdiscurt'') (readUInt16BE buffer 33)
        (\<lambda>raw. js_div raw 1) ''A'' ''value.current'',
      num_entry (bmsFolder @ ''.maxchgcurt'') (readUInt16BE buffer 35)
        (\<lambda>raw. js_div raw 1) ''A'' ''value.current'']"

subsection \<open>Cell detail (0x34)\<close>

definition cell_voltage :: "string \<Rightarrow> byte list \<Rightarrow> string \<Rightarrow> nat \<Rightarrow> error + (string \<times> update)" where
  "cell_voltage bmsFolder buffer name offset =
     num_entry (bmsFolder @ name) (readUInt16BE buffer offset)
       (\<lambda>raw. js_div raw 1000) ''V'' ''value.voltage''"

definition temperature :: "string \<Rightarrow> byte list \<Rightarrow> string \<Rightarrow> nat \<Rightarrow> error + (string \<times> update)" where
  "temperature bmsFolder buffer name offset =
     num_entry (bmsFolder @ name) (readUInt16BE buffer offset) celsius degC ''value.temperature''"

definition decode_0x34 :: "string \<Rightarrow> byte list \<Rightarrow> error + (string \<times> update) list" where
  "decode_0x34 bmsFolder buffer = collect
     [cell_voltage bmsFolder buffer ''.cell_1_voltage'' 3,
      cell_voltage bmsFolder buffer ''.cell_2_voltage'' 5,
      cell_voltage bmsFolder buffer ''.cell_3_voltage'' 7,
      cell_voltage bmsFolder buffer ''.cell_4_voltage'' 9,
      cell_voltage bmsFolder buffer ''.cell_5_voltage'' 11,
      cell_voltage bmsFolder buffer ''.cell_6_voltage'' 13,
      cell_voltage bmsFolder buffer ''.cell_7_voltage'' 15,
      cell_voltage bmsFolder buffer ''.cell_8_voltage'' 17,
      cell_voltage bmsFolder buffer ''.cell_9_voltage'' 19,
      cell_voltage bmsFolder buffer ''.cell_10_voltage'' 21,
      cell_voltage bmsFolder buffer ''.cell_11_voltage'' 23,
      cell_voltage bmsFolder buffer ''.cell_12_voltage'' 25,
      cell_voltage bmsFolder buffer ''.cell_13_voltage'' 27,
      cell_voltage bmsFolder buffer ''.cell_14_voltage'' 29,
      cell_voltage bmsFolder buffer ''.cell_15_voltage'' 31,
      cell_voltage bmsFolder buffer ''.cell_16_voltage'' 33,
      temperature bmsFolder buffer ''.cell_temp_1'' 35,
      temperature bmsFolder buffer ''.cell_temp_2'' 37,
      temperature bmsFolder buffer ''.cell_temp_3'' 39,
      temperature bmsFolder buffer ''.cell_temp_4'' 41,
      temperature bmsFolder buffer ''.case_temp'' 51,
      temperature bmsFolder buffer ''.power_temp'' 53]"

subsection \<open>Alarm and status (0x12)\<close>

text \<open>
  \<^verbatim>\<open>parseBits\<close> gives the eight bits of a byte, least significant first. A byte read
  outside the Buffer is \<^verbatim>\<open>undefined\<close>, which the shift turns into 0.
\<close>

definition parseBits :: "byte option \<Rightarrow> int32 list" where
  "parseBits byte = map (\<lambda>i. signed_drop_bit i (toInt32 byte) AND 1) [0..<8]"

text \<open>\<^verbatim>\<open>forEach((bit, i) => { if (bit) cells.push(i + first) })\<close>\<close>

definition cells :: "int32 list \<Rightarrow> nat \<Rightarrow> nat list" where
  "cells bits first =
     map (\<lambda>(bit, i). i + first) (filter (\<lambda>(bit, i). bit \<noteq> 0) (zip bits [0..<length bits]))"

definition lowVoltageCells :: "byte list \<Rightarrow> nat list" where
  "lowVoltageCells buffer =
     cells (parseBits (js_at buffer 3)) 1 @ cells (parseBits (js_at buffer 4)) 9"

definition highVoltageCells :: "byte list \<Rightarrow> nat list" where
  "highVoltageCells buffer =
     cells (parseBits (js_at buffer 5)) 1 @ cells (parseBits (js_at buffer 6)) 9"

definition lowTempCells :: "byte list \<Rightarrow> nat list" where
  "lowTempCells buffer = cells (parseBits (js_at buffer 7)) 1"

definition highTempCells :: "byte list \<Rightarrow> nat list" where
  "highTempCells buffer = cells (parseBits (js_at buffer 8)) 1"

definition balancingCells :: "byte list \<Rightarrow> nat list" where
  "balancingCells buffer =
     cells (parseBits (js_at buffer 9)) 1 @ cells (parseBits (js_at buffer 10)) 9"

definition cell_list :: "nat list \<Rightarrow> string" where
  "cell_list cs = join '', '' (map show_nat cs)"

text \<open>The "Low: ... | High: ..." string of the voltage and of the temperature alarms.\<close>

definition low_high_string :: "nat list \<Rightarrow> nat list \<Rightarrow> string" where
  "low_high_string low high =
     (let lowStr = (if low \<noteq> [] then ''Low: '' @ cell_list low else '''');
          highStr = (if high \<noteq> [] then ''High: '' @ cell_list high else '''')
      in join '' | '' (filter (\<lambda>s. s \<noteq> '''') [lowStr, highStr]))"
text \<open>\<^verbatim>\<open>if (buffer[i] & m) { list.push(label) }\<close>\<close>

definition flag :: "byte list \<Rightarrow> int \<Rightarrow> int32 \<Rightarrow> string \<Rightarrow> string list" where
  "flag buffer i m label = (if toInt32 (js_at buffer i) AND m \<noteq> 0 then [label] else [])"

definition systemStatus :: "byte list \<Rightarrow> string list" where
  "systemStatus buffer =
     flag buffer 11 0x01 ''Discharge'' @ flag buffer 11 0x02 ''Charge'' @
     flag buffer 11 0x04 ''Floating Charge'' @ flag buffer 11 0x08 ''Full Charge'' @
     flag buffer 11 0x10 ''Standy Mode'' @ flag buffer 11 0x20 ''Turn Off''"

text \<open>
  The source pushes alarms and protections in one pass over the bytes 12 to 20. Each
  section of that pass is given here by the alarms and by the protections it pushes, in the
  order of the source.
\<close>

definition voltage_event_alarms :: "byte list \<Rightarrow> string list" where
  "voltage_event_alarms buffer =
     flag buffer 12 0x01 ''Cell High Voltage Alarm'' @
     flag buffer 12 0x04 ''Cell Low Voltage Alarm'' @
     flag buffer 12 0x10 ''Pack High Voltage Alarm'' @
     flag buffer 12 0x40 ''Pack Low Voltage Alarm''"

definition voltage_event_protections :: "byte list \<Rightarrow> string list" where
  "voltage_event_protections buffer =
     flag buffer 12 0x02 ''Cell Over Voltage Protection'' @
     flag buffer 12 0x08 ''Cell Under Voltage Protection'' @
     flag buffer 12 0x20 ''Pack Over Voltage Protection'' @
     flag buffer 12 0x80 ''Pack Under Voltage Protection''"

definition temperature_event_alarms :: "byte list \<Rightarrow> string list" where
  "temperature_event_alarms buffer =
     flag buffer 13 0x01 ''Charge High Temperature Alarm'' @
     flag buffer 13 0x04 ''Charge Low Temperature Alarm'' @
     flag buffer 13 0x10 ''Discharge High Temperature Alarm'' @
     flag buffer 13 0x40 ''Discharge Low Temperature Alarm''"

definition temperature_event_protections :: "byte list \<Rightarrow> string list" where
  "temperature_event_protections buffer =
     flag buffer 13 0x02 ''Charge High Temperature Protection'' @
     flag buffer 13 0x08 ''Charge Under Temperature Protection'' @
     flag buffer 13 0x20 ''Discharge Over Temperature Protection'' @
     flag buffer 13 0x80 ''Discharge Under Temperature Protection''"

definition environment_event_alarms :: "byte list \<Rightarrow> string list" where
  "environment_event_alarms buffer =
     flag buffer 14 0x01 ''High Environment Temperature Alarm'' @
     flag buffer 14 0x04 ''Low Environment Temperature Alarm'' @
     flag buffer 14 0x10 ''High Power Temperature Alarm'' @
     flag buffer 14 0x40 ''Cell Temperature Low Heating''"

definition environment_event_protections :: "byte list \<Rightarrow> string list" where
  "environment_event_protections buffer =
     flag buffer 14 0x02 ''Over Environment Temperature Protection'' @
     flag buffer 14 0x08 ''Under Environment Temperature Protection'' @
     flag buffer 14 0x20 ''Over Power Temperature Protection''"

definition current_event_alarms :: "byte list \<Rightarrow> string list" where
  "current_event_alarms buffer =
     flag buffer 15 0x01 ''Charge Current Alarm'' @
     flag buffer 15 0x08 ''Discharge Current Alarm''"

definition current_event_protections :: "byte list \<Rightarrow> string list" where
  "current_event_protections buffer =
     flag buffer 15 0x02 ''Charge Over Current Protection'' @
     flag buffer 15 0x04 ''Charge Second Level Current Protection'' @
     flag buffer 15 0x10 ''Discharge Over Current Protection'' @
     flag buffer 15 0x20 ''Discharge Second Level Over Current Protection'' @
     flag buffer 15 0x40 ''Output Short Circuit Protection''"

definition second_current_event_alarms :: "byte list \<Rightarrow> string list" where
  "second_current_event_alarms buffer =
     flag buffer 16 0x01 ''Output Short Latch Up'' @
     flag buffer 16 0x04 ''Second Charge Latch Up'' @
     flag buffer 16 0x08 ''Second Discharge Latch Up''"

definition residual_capacity_alarms :: "byte list \<Rightarrow> string list" where
  "residual_capacity_alarms buffer =
     flag buffer 17 0x04 ''SOC Alarm'' @ flag buffer 17 0x10 ''Cell Difference Alarm''"

definition residual_capacity_protections :: "byte list \<Rightarrow> string list" where
  "residual_capacity_protections buffer = flag buffer 17 0x08 ''SOC Protection''"

definition FETEvent :: "byte list \<Rightarrow> string list" where
  "FETEvent buffer =
     flag buffer 18 0x01 ''Discharge FET On'' @ flag buffer 18 0x02 ''Charge FET On'' @
     flag buffer 18 0x04 ''Current Limiting FET On'' @ flag buffer 18 0x08 ''Heating On''"

definition equalization_state_alarms :: "byte list \<Rightarrow> string list" where
  "equalization_state_alarms buffer =
     flag buffer 19 0x01 ''Low SOC Alarm'' @
     flag buffer 19 0x02 ''Intermittent Charge'' @
     flag buffer 19 0x04 ''External Switch Conrol'' @
     flag buffer 19 0x08 ''Static Standy Sleep Mode'' @
     flag buffer 19 0x10 ''History Data Recording'' @
     flag buffer 19 0x40 ''Active Limited Current'' @
     flag buffer 19 0x80 ''Passive Limited Current''"

definition equalization_state_protections :: "byte list \<Rightarrow> string list" where
  "equalization_state_protections buffer = flag buffer 19 0x20 ''Under SOC Protections''"

definition hard_fault_protections :: "byte list \<Rightarrow> string list" where
  "hard_fault_protections buffer =
     flag buffer 20 0x01 ''NTC Fault'' @ flag buffer 20 0x02 ''AFE Fault'' @
     flag buffer 20 0x04 ''Charge Mosfet Fault'' @ flag buffer 20 0x08 ''Discharge Mosfet Fault'' @
     flag buffer 20 0x10 ''Cell Fault'' @ flag buffer 20 0x20 ''Break Line Fault'' @
     flag buffer 20 0x40 ''Key Fault'' @ flag buffer 20 0x80 ''Aerosol Alarm''"

definition activeAlarms :: "byte list \<Rightarrow> string list" where
  "activeAlarms buffer =
     voltage_event_alarms buffer @ temperature_event_alarms buffer @
     environment_event_alarms buffer @ current_event_alarms buffer @
     second_current_event_alarms buffer @ residual_capacity_alarms buffer @
     equalization_state_alarms buffer"

definition activeProtections :: "byte list \<Rightarrow> string list" where
  "activeProtections buffer =
     voltage_event_protections buffer @ temperature_event_protections buffer @
     environment_event_protections buffer @ current_event_protections buffer @
     residual_capacity_protections buffer @ equalization_state_protections buffer @
     hard_fault_protections buffer"

definition text_entry :: "string \<Rightarrow> string \<Rightarrow> string \<times> update" where
  "text_entry key v =
     (key, \<lparr>upd_value = String v, upd_unit = None, upd_role = ''text'', upd_ctype = ''string''\<rparr>)"

definition decode_0x12 :: "string \<Rightarrow> byte list \<Rightarrow> (string \<times> update) list" where
  "decode_0x12 bmsFolder buffer =
     [text_entry (bmsFolder @ ''.system_status'') (join '', '' (systemStatus buffer)),
      text_entry (bmsFolder @ ''.active_balancing_cells'') (cell_list (balancingCells buffer)),
      text_entry (bmsFolder @ ''.cell_temperature_alarms'')
        (low_high_string (lowTempCells buffer) (highTempCells buffer)),
      text_entry (bmsFolder @ ''.cell_voltage_alarms'')
        (low_high_string (lowVoltageCells buffer) (highVoltageCells buffer)),
      text_entry (bmsFolder @ ''.FET_status'') (join '', '' (FETEvent buffer)),
      text_entry (bmsFolder @ ''.active_alarms'') (join '', '' (activeAlarms buffer)),
      text_entry (bmsFolder @ ''.active_protections'') (join '', '' (activeProtections buffer))]"

subsection \<open>The decoder\<close>

text \<open>The dispatch on the third byte; any other subtype leaves \<^verbatim>\<open>updates\<close> empty.\<close>

definition decode :: "string \<Rightarrow> byte list \<Rightarrow> error + (string \<times> update) list" where
  "decode bmsFolder buffer =
     (if js_at buffer 2 = Some 0x24 then decode_0x24 bmsFolder buffer
      else if js_at buffer 2 = Some 0x34 then decode_0x34 bmsFolder buffer
      else if js_at buffer 2 = Some 0x12 then Inr (decode_0x12 bmsFolder buffer)
      else Inr [])"

subsection \<open>The adapter state\<close>

text \<open>
  The fields of the adapter that \<^verbatim>\<open>processPacket\<close> reads and writes. The host's object
  store and state store are seen through the calls made to them: \<open>objects\<close> lists the
  objects created with \<^verbatim>\<open>setObjectNotExistsAsync\<close>, \<open>states\<close> the values written with
  \<^verbatim>\<open>setState\<close>, both in call order. The working buffer of the synchronizer is the
  first argument of \<open>processStream\<close> above.
\<close>

datatype obj = Channel string | StateObject string string string "string option"

record adapter =
  lastUpdate :: "string \<rightharpoonup> int"
  updateInterval :: int
  lastDataReceived :: int
  knownIds :: "string list"
  isShuttingDown :: bool
  objects :: "(string \<times> obj) list"
  states :: "(string \<times> jsvalue) list"

text \<open>
  \<^verbatim>\<open>ensureObjectExists\<close>. Whether the host accepts the creation is not decided by the
  adapter: \<open>host_ok id\<close> says whether \<^verbatim>\<open>setObjectNotExistsAsync\<close> resolves for this id.
  When it rejects, the error is logged and the id is not remembered.
\<close>

definition ensureObjectExists :: "(string \<Rightarrow> bool) \<Rightarrow> adapter \<Rightarrow> string \<Rightarrow> obj \<Rightarrow> adapter" where
  "ensureObjectExists host_ok st ident ob =
     (if isShuttingDown st \<or> ident \<in> set (knownIds st) then st
      else if host_ok ident
        then st\<lparr>objects := objects st @ [(ident, ob)], knownIds := knownIds st @ [ident]\<rparr>
        else st)"

subsection \<open>The update gate\<close>

text \<open>
  The condition of the loop over \<^verbatim>\<open>Object.entries(updates)\<close>:
  \<^verbatim>\<open>!this.lastUpdate[key] || now - this.lastUpdate[key] >= this.updateInterval\<close>.
  The negation is true for a missing entry and for the number 0.
\<close>

definition shouldEmit :: "adapter \<Rightarrow> string \<Rightarrow> int \<Rightarrow> bool" where
  "shouldEmit st key now =
     (case lastUpdate st key of
        None \<Rightarrow> True
      | Some t \<Rightarrow> t = 0 \<or> now - t \<ge> updateInterval st)"

text \<open>The body of the loop for one entry.\<close>

definition publish_entry :: "(string \<Rightarrow> bool) \<Rightarrow> int \<Rightarrow> adapter \<Rightarrow> string \<times> update \<Rightarrow> adapter" where
  "publish_entry host_ok now st entry =
     (let key = fst entry; u = snd entry in
      if shouldEmit st key now then
        let st1 = st\<lparr>lastUpdate := (lastUpdate st)(key \<mapsto> now)\<rparr>;
            st2 = ensureObjectExists host_ok st1 key
                    (StateObject key (upd_ctype u) (upd_role u) (upd_unit u))
        in if \<not> isShuttingDown st2
           then st2\<lparr>states := states st2 @ [(key, upd_value u)]\<rparr>
           else st2
      else st)"

definition publish :: "(string \<Rightarrow> bool) \<Rightarrow> int \<Rightarrow> adapter \<Rightarrow> (string \<times> update) list \<Rightarrow> adapter" where
  "publish host_ok now st updates = foldl (publish_entry host_ok now) st updates"

subsection \<open>Processing a frame\<close>

text \<open>
  \<^verbatim>\<open>buffer[0] - 0x01\<close> is \<^verbatim>\<open>NaN\<close> on an empty Buffer (\<open>None\<close> here), and the template
  string prints it as such.
\<close>

definition bmsIndex :: "byte list \<Rightarrow> int option" where
  "bmsIndex buffer = map_option (\<lambda>b. uint b - 0x01) (js_at buffer 0)"

definition show_index :: "int option \<Rightarrow> string" where
  "show_index i = (case i of None \<Rightarrow> ''NaN'' | Some k \<Rightarrow> show_int k)"

definition bmsFolder :: "byte list \<Rightarrow> string" where
  "bmsFolder buffer = ''bms_'' @ show_index (bmsIndex buffer)"

text \<open>
  \<^verbatim>\<open>processPacket\<close>, run to its end. \<open>t0\<close> and \<open>t1\<close> are the two readings of
  \<^verbatim>\<open>Date.now()\<close>: at the link-alive update and before the loop over the updates. The
  function is asynchronous in the source and gives up control at each \<^verbatim>\<open>await\<close>; the
  test of the gate and the write of the timestamp of a key are not separated by one. The
  result is the state afterwards and the error, if a read threw.
\<close>

definition processPacket ::
    "(string \<Rightarrow> bool) \<Rightarrow> int \<Rightarrow> int \<Rightarrow> adapter \<Rightarrow> byte list \<Rightarrow> adapter \<times> error option" where
  "processPacket host_ok t0 t1 st buffer =
     (let st1 = (if bmsIndex buffer = Some 0
                 then st\<lparr>lastDataReceived := t0,
                         states := states st @ [(''info.connection'', Boolean True)]\<rparr>
                 else st);
          st2 = ensureObjectExists host_ok st1 (bmsFolder buffer)
                  (Channel (''bms '' @ show_index (bmsIndex buffer)))
      in case decode (bmsFolder buffer) buffer of
           Inl e \<Rightarrow> (st2, Some e)
         | Inr updates \<Rightarrow> (publish host_ok t1 st2 updates, None))"

subsection \<open>The earlier revision of the header check\<close>

text \<open>
  In \<^verbatim>\<open>src/main.js\<close> the alarm frame is not known yet: the header check accepts the
  two function-0x04 pairs only, and the declared length is 41 for subtype 0x24 and 57
  otherwise.
\<close>

definition isValidHeader_main :: "byte list \<Rightarrow> bool" where
  "isValidHeader_main buffer =
     (address_ok (js_at buffer 0) \<and> js_at buffer 1 = Some 0x04 \<and>
      (js_at buffer 2 = Some 0x24 \<or> js_at buffer 2 = Some 0x34))"

definition getExpectedLength_main :: "byte list \<Rightarrow> int" where
  "getExpectedLength_main buffer = (if js_at buffer 2 = Some 0x24 then 41 else 57)"

section \<open>Reference algorithm, predicates and sample data\<close>

subsection \<open>The Modbus CRC-16 as the specification words it\<close>

text \<open>
  The reference algorithm on a 16-bit register: start from 0xFFFF; XOR each byte into the
  low byte of the register; then eight times: shift right by one bit, and XOR with 0xA001
  when the bit shifted out was set.
\<close>

definition spec_crc16_shift :: "16 word \<Rightarrow> 16 word" where
  "spec_crc16_shift c = (if bit c 0 then drop_bit 1 c XOR 0xA001 else drop_bit 1 c)"

definition spec_crc16_byte :: "16 word \<Rightarrow> byte \<Rightarrow> 16 word" where
  "spec_crc16_byte c b = (spec_crc16_shift ^^ 8) (c XOR ucast b)"

definition spec_crc16 :: "byte list \<Rightarrow> 16 word" where
  "spec_crc16 bytes = foldl spec_crc16_byte 0xFFFF bytes"

subsection \<open>Predicates on frames and on the working buffer\<close>

text \<open>A frame with a valid header, of its declared length, whose CRC matches.\<close>

definition frame_ok :: "byte list \<Rightarrow> bool" where
  "frame_ok frame \<longleftrightarrow>
     isValidHeader frame \<and> getExpectedLength frame = int (length frame) \<and>
     validateCRC frame (int (length frame))"

text \<open>
  What the loop of \<^verbatim>\<open>processStream\<close> maintains between two bytes: the buffer is shorter
  than 5 bytes, or it starts with a valid header and is shorter than its declared length.
\<close>

definition buffer_inv :: "byte list \<Rightarrow> bool" where
  "buffer_inv buffer \<longleftrightarrow>
     length buffer \<le> 4 \<or>
     (isValidHeader buffer \<and> int (length buffer) < getExpectedLength buffer)"

subsection \<open>Changes confined to the ids of one device\<close>

text \<open>
  \<open>confined p st st'\<close>: from \<open>st\<close> to \<open>st'\<close> the link-alive timestamp, the shutdown flag
  and the interval are unchanged, and every gate entry changed, every state written, every
  id remembered and every object created has an id that starts with \<open>p\<close>.
\<close>

definition confined :: "string \<Rightarrow> adapter \<Rightarrow> adapter \<Rightarrow> bool" where
  "confined p st st' \<longleftrightarrow>
     lastDataReceived st' = lastDataReceived st \<and>
     isShuttingDown st' = isShuttingDown st \<and>
     updateInterval st' = updateInterval st \<and>
     (\<forall>k. \<not> prefix p k \<longrightarrow> lastUpdate st' k = lastUpdate st k) \<and>
     (\<exists>new. states st' = states st @ new \<and> (\<forall>e \<in> set new. prefix p (fst e))) \<and>
     (\<exists>ids. knownIds st' = knownIds st @ ids \<and> (\<forall>i \<in> set ids. prefix p i)) \<and>
     (\<exists>obs. objects st' = objects st @ obs \<and> (\<forall>ob \<in> set obs. prefix p (fst ob)))"

subsection \<open>Sample frames\<close>

text \<open>
  A pack telemetry frame of device 1: pack voltage raw 5200, current raw -150, average cell
  temperature raw 2981, with its CRC in the last two bytes (low byte first).
\<close>

definition sample_0x24 :: "byte list" where
  "sample_0x24 =
     [0x01, 0x04, 0x24, 0x14, 0x50, 0xFF, 0x6A, 0x27, 0x10, 0x6D, 0x60, 0x04, 0xD2, 0x01, 0x65,
      0x03, 0xE8, 0x00, 0x0C, 0x0C, 0xB2, 0x0B, 0xA5, 0x0C, 0xBC, 0x0C, 0xA8, 0x0B, 0xAF, 0x0B,
      0x9B, 0x00, 0x00, 0x00, 0xC8, 0x00, 0x64, 0x00, 0x00, 0x34, 0x31]"

text \<open>The same telemetry frame, sent by device 16.\<close>

definition sample_0x24_dev16 :: "byte list" where
  "sample_0x24_dev16 =
     [0x10, 0x04, 0x24, 0x14, 0x50, 0xFF, 0x6A, 0x27, 0x10, 0x6D, 0x60, 0x04, 0xD2, 0x01, 0x65,
      0x03, 0xE8, 0x00, 0x0C, 0x0C, 0xB2, 0x0B, 0xA5, 0x0C, 0xBC, 0x0C, 0xA8, 0x0B, 0xAF, 0x0B,
      0x9B, 0x00, 0x00, 0x00, 0xC8, 0x00, 0x64, 0x00, 0x00, 0xA4, 0x5D]"

text \<open>
  An alarm frame of device 2: low-voltage bits 0 and 2 (byte 3), system status "Charge"
  (byte 11), voltage event bit 0 (byte 12), both FETs on (byte 18).
\<close>

definition sample_0x12 :: "byte list" where
  "sample_0x12 =
     [0x02, 0x01, 0x12, 0x05, 0x00, 0x00, 0x00, 0x00, 0x00, 0x00, 0x00, 0x02, 0x01, 0x00, 0x00,
      0x00, 0x00, 0x00, 0x03, 0x00, 0x00, 0xF4, 0xC4]"

text \<open>
  An adapter with empty tables and the default update interval of 5 seconds. The
  constructor takes the last-data timestamp from the clock; it is 0 here.
\<close>

definition fresh :: adapter where
  "fresh = \<lparr>lastUpdate = Map.empty, updateInterval = 5000, lastDataReceived = 0, knownIds = [],
            isShuttingDown = False, objects = [], states = []\<rparr>"

text \<open>A state-of-charge record, as the telemetry decoder produces it.\<close>

definition soc :: update where
  "soc = \<lparr>upd_value = Number 35, upd_unit = Some ''%'', upd_role = ''value'',
          upd_ctype = ''number''\<rparr>"

subsection \<open>Labels and record names\<close>

text \<open>The eight labels that the source attaches to the bits of the voltage event byte.\<close>

definition voltage_event_labels :: "string list" where
  "voltage_event_labels =
     [''Cell High Voltage Alarm'', ''Cell Over Voltage Protection'',
      ''Cell Low Voltage Alarm'', ''Cell Under Voltage Protection'',
      ''Pack High Voltage Alarm'', ''Pack Over Voltage Protection'',
      ''Pack Low Voltage Alarm'', ''Pack Under Voltage Protection'']"

text \<open>
  The names of the records that the source decodes for each subtype, in the order of the
  object literal, without the folder of the device.
\<close>

definition record_names_0x24 :: "string list" where
  "record_names_0x24 =
     [''.pack_voltage'', ''.current'', ''.remaining_capacity'', ''.total_capacity'',
      ''.total_discharge_capacity'', ''.soc'', ''.soh'', ''.cycle_count'',
      ''.average_cell_voltage'', ''.average_cell_temp'', ''.max_cell_voltage'',
      ''.min_cell_voltage'', ''.max_cell_temp'', ''.min_cell_temp'', ''.maxdiscurt'',
      ''.maxchgcurt'']"

definition record_names_0x34 :: "string list" where
  "record_names_0x34 =
     [''.cell_1_voltage'', ''.cell_2_voltage'', ''.cell_3_voltage'', ''.cell_4_voltage'',
      ''.cell_5_voltage'', ''.cell_6_voltage'', ''.cell_7_voltage'', ''.cell_8_voltage'',
      ''.cell_9_voltage'', ''.cell_10_voltage'', ''.cell_11_voltage'', ''.cell_12_voltage'',
      ''.cell_13_voltage'', ''.cell_14_voltage'', ''.cell_15_voltage'', ''.cell_16_voltage'',
      ''.cell_temp_1'', ''.cell_temp_2'', ''.cell_temp_3'', ''.cell_temp_4'', ''.case_temp'',
      ''.power_temp'']"

definition record_names_0x12 :: "string list" where
  "record_names_0x12 =
     [''.system_status'', ''.active_balancing_cells'', ''.cell_temperature_alarms'',
      ''.cell_voltage_alarms'', ''.FET_status'', ''.active_alarms'', ''.active_protections'']"

definition record_names :: "byte list \<Rightarrow> string list" where
  "record_names buffer =
     (if js_at buffer 2 = Some 0x24 then record_names_0x24
      else if js_at buffer 2 = Some 0x34 then record_names_0x34
      else if js_at buffer 2 = Some 0x12 then record_names_0x12
      else [])"

subsection \<open>What one pass over the decoded records leaves behind\<close>

text \<open>
  The records that pass the gate at the time \<open>now\<close> in the state \<open>st\<close>, the state value and
  the state object of a record, and the ids for which an object is created: those the host
  accepts and the adapter does not know yet.
\<close>

definition passing :: "adapter \<Rightarrow> int \<Rightarrow> (string \<times> update) list \<Rightarrow> (string \<times> update) list" where
  "passing st now updates = filter (\<lambda>e. shouldEmit st (fst e) now) updates"

definition state_value :: "string \<times> update \<Rightarrow> string \<times> jsvalue" where
  "state_value e = (fst e, upd_value (snd e))"

definition state_object :: "string \<times> update \<Rightarrow> string \<times> obj" where
  "state_object e =
     (fst e, StateObject (fst e) (upd_ctype (snd e)) (upd_role (snd e)) (upd_unit (snd e)))"

definition unknown :: "(string \<Rightarrow> bool) \<Rightarrow> adapter \<Rightarrow> string \<Rightarrow> bool" where
  "unknown host_ok st ident \<longleftrightarrow> host_ok ident \<and> ident \<notin> set (knownIds st)"

section \<open>Properties\<close>

subsection \<open>Array reads inside the range\<close>

lemma js_at_nat: "n < length buffer \<Longrightarrow> js_at buffer (int n) = Some (buffer ! n)"
  by (simp add: js_at_def)

subsection \<open>The CRC engine\<close>

lemma low_bit_ucast16: "(ucast (c :: 16 word) :: int32) AND 1 \<noteq> 0 \<longleftrightarrow> bit c 0"
  by (simp add: and_one_eq bit_0 bit_unsigned_iff flip: even_iff_mod_2_eq_zero bit_0)

lemma shift_ucast16: "signed_drop_bit 1 (ucast (c :: 16 word) :: int32) = ucast (drop_bit 1 c)"
  by (rule bit_word_eqI) (auto simp add: bit_simps dest: bit_imp_le_length)

lemma poly_ucast16: "(0xa001 :: int32) = ucast (0xA001 :: 16 word)"
  by simp

lemma xor_ucast16: "(ucast (x :: 16 word) :: int32) XOR ucast (y :: 16 word) = ucast (x XOR y)"
  by (rule bit_word_eqI) (auto simp add: bit_simps)

lemma xor_byte_ucast16:
  "(ucast (c :: 16 word) :: int32) XOR ucast (b :: byte) = ucast (c XOR ucast b)"
  by (rule bit_word_eqI) (auto simp add: bit_simps dest: bit_imp_le_length)

lemma crc_shift_ucast16: "crc_shift (ucast (c :: 16 word)) = ucast (spec_crc16_shift c)"
  unfolding crc_shift_def spec_crc16_shift_def low_bit_ucast16 shift_ucast16
  apply (subst poly_ucast16)
  apply (simp only: xor_ucast16 if_distrib [of ucast])
  done

lemma crc_shift_pow_ucast16:
  "(crc_shift ^^ n) (ucast (c :: 16 word)) = ucast ((spec_crc16_shift ^^ n) c)"
  by (induction n) (simp_all add: crc_shift_ucast16)

lemma crc_byte_ucast16: "crc_byte (ucast (c :: 16 word)) b = ucast (spec_crc16_byte c b)"
  by (simp only: crc_byte_def spec_crc16_byte_def xor_byte_ucast16 crc_shift_pow_ucast16)

lemma foldl_crc_byte_ucast16:
  "foldl crc_byte (ucast (c :: 16 word)) data = ucast (foldl spec_crc16_byte c data)"
  by (induction data arbitrary: c) (simp_all add: crc_byte_ucast16)

lemma init_ucast16: "(0xffff :: int32) = ucast (0xFFFF :: 16 word)"
  by simp

lemma sint_ucast16: "sint (ucast (c :: 16 word) :: int32) = uint c"
proof -
  have "uint c < 2 ^ 16"
    using uint_bounded [of c] by simp
  then have "uint c < 2 ^ 31"
    by simp
  moreover have "- (2 ^ 31) \<le> uint c"
  proof -
    have "(0::int) \<le> uint c"
      by simp
    then have "- 2147483648 \<le> uint c"
      by linarith
    then show ?thesis
      by simp
  qed
  ultimately have "signed_take_bit 31 (uint c) = uint c"
    by (rule_tac signed_take_bit_int_eq_self) simp_all
  then show ?thesis
    by (simp add: signed_ucast_eq)
qed

lemma calculateModbusCRC_spec: "calculateModbusCRC data = uint (spec_crc16 data)"
  unfolding calculateModbusCRC_def spec_crc16_def
  by (subst init_ucast16) (simp only: foldl_crc_byte_ucast16 sint_ucast16)

lemma calculateModbusCRC_range:
  "0 \<le> calculateModbusCRC data \<and> calculateModbusCRC data < 65536"
  using uint_bounded [of "spec_crc16 data"] by (simp add: calculateModbusCRC_spec)

lemma funpow8: "(f ^^ 8) x = f (f (f (f (f (f (f (f x)))))))"
  by (simp add: numeral_eq_Suc)

lemma calculateModbusCRC_check_value:
  "calculateModbusCRC [0x31, 0x32, 0x33, 0x34, 0x35, 0x36, 0x37, 0x38, 0x39] = 0x4B37"
  by (simp add: calculateModbusCRC_def crc_byte_def funpow8 crc_shift_def)

text \<open>
  Claim C3. \<^verbatim>\<open>calculateModbusCRC\<close> is the standard Modbus CRC-16: on every byte sequence
  it returns the value of the reference algorithm on a 16-bit register (start 0xFFFF, XOR the
  byte into the low byte, eight shifts right with XOR 0xA001 when the bit shifted out was
  set), the value is a 16-bit number, and on the standard check input, the ASCII digits
  "123456789", it is the reference value 0x4B37. The function reads nothing but its
  argument and changes no state: it is a function of the bytes alone.
\<close>

theorem C3_modbus_crc16:
  "calculateModbusCRC data = uint (spec_crc16 data) \<and>
   0 \<le> calculateModbusCRC data \<and> calculateModbusCRC data < 65536 \<and>
   calculateModbusCRC [0x31, 0x32, 0x33, 0x34, 0x35, 0x36, 0x37, 0x38, 0x39] = 0x4B37"
  using calculateModbusCRC_spec calculateModbusCRC_range calculateModbusCRC_check_value
  by simp

subsection \<open>Header check and declared length\<close>

lemma js_at_header:
  assumes "3 \<le> length buffer"
  shows "js_at buffer 0 = Some (buffer ! 0)" and "js_at buffer 1 = Some (buffer ! 1)"
    and "js_at buffer 2 = Some (buffer ! 2)"
  using assms by (auto simp add: js_at_def)

lemma isValidHeader_iff:
  assumes "3 \<le> length buffer"
  shows "isValidHeader buffer \<longleftrightarrow>
     0x01 \<le> buffer ! 0 \<and> buffer ! 0 \<le> 0x10 \<and>
     (buffer ! 1 = 0x04 \<and> buffer ! 2 = 0x24 \<or>
      buffer ! 1 = 0x04 \<and> buffer ! 2 = 0x34 \<or>
      buffer ! 1 = 0x01 \<and> buffer ! 2 = 0x12)"
  using assms by (auto simp add: isValidHeader_def address_ok_def js_at_header)

lemma getExpectedLength_eq:
  assumes "3 \<le> length buffer"
  shows "getExpectedLength buffer =
     (if buffer ! 2 = 0x24 then 41
      else if buffer ! 2 = 0x34 then 57
      else if buffer ! 1 = 0x01 \<and> buffer ! 2 = 0x12 then 23
      else 0)"
  using assms by (simp add: getExpectedLength_def js_at_header)

lemma isValidHeader_short: "length buffer < 3 \<Longrightarrow> \<not> isValidHeader buffer"
  by (simp add: isValidHeader_def js_at_def)

lemma isValidHeader_length: "isValidHeader buffer \<Longrightarrow> 3 \<le> length buffer"
  using isValidHeader_short [of buffer] by (cases "length buffer < 3") simp_all

lemma valid_header_length:
  assumes "isValidHeader buffer"
  shows "getExpectedLength buffer = 41 \<or> getExpectedLength buffer = 57 \<or>
         getExpectedLength buffer = 23"
proof -
  have len: "3 \<le> length buffer"
    using assms by (rule isValidHeader_length)
  show ?thesis
    using assms by (auto simp add: isValidHeader_iff [OF len] getExpectedLength_eq [OF len])
qed

text \<open>
  Claim C1, as amended. For every buffer of at least 5 bytes the header is valid exactly
  when the first byte is in [0x01, 0x10] and the second and third bytes are one of the pairs
  (0x04, 0x24), (0x04, 0x34), (0x01, 0x12). The declared length is 41 whenever the third byte
  is 0x24 and 57 whenever it is 0x34, whatever the second byte; it is 23 for the pair
  (0x01, 0x12), and 0 in every other case. For the three valid pairs this gives 41, 57, 23.
\<close>

theorem C1_header_and_length:
  assumes "5 \<le> length buffer"
  shows "(isValidHeader buffer \<longleftrightarrow>
            0x01 \<le> buffer ! 0 \<and> buffer ! 0 \<le> 0x10 \<and>
            (buffer ! 1, buffer ! 2) \<in> {(0x04, 0x24), (0x04, 0x34), (0x01, 0x12)}) \<and>
         getExpectedLength buffer =
           (if buffer ! 2 = 0x24 then 41
            else if buffer ! 2 = 0x34 then 57
            else if (buffer ! 1, buffer ! 2) = (0x01, 0x12) then 23
            else 0)"
proof -
  have len: "3 \<le> length buffer"
    using assms by simp
  show ?thesis
    by (auto simp add: isValidHeader_iff [OF len] getExpectedLength_eq [OF len])
qed

theorem C1_header_and_length_witness:
  "5 \<le> length [0x01, 0x04, 0x24, 0x00, 0x00 :: byte] \<and>
   isValidHeader [0x01, 0x04, 0x24, 0x00, 0x00] \<and>
   getExpectedLength [0x01, 0x04, 0x24, 0x00, 0x00] = 41"
  using C1_header_and_length [of "[0x01, 0x04, 0x24, 0x00, 0x00]"] by simp

text \<open>
  The claim as stated fails: the pair (0x03, 0x24) is none of the three pairs, and the
  declared length of a buffer carrying it is 41, not 0.
\<close>

theorem C1_other_pair_counterexample:
  "(0x03 :: byte, 0x24 :: byte) \<notin> {(0x04, 0x24), (0x04, 0x34), (0x01, 0x12)} \<and>
   getExpectedLength [0x01, 0x03, 0x24, 0x00, 0x00] \<noteq> 0"
  by (simp add: getExpectedLength_def js_at_def)

subsection \<open>One step of the synchronizer\<close>

lemma isValidHeader_append:
  assumes "3 \<le> length buffer"
  shows "isValidHeader (buffer @ xs) = isValidHeader buffer"
proof -
  have "3 \<le> length (buffer @ xs)"
    using assms by simp
  then show ?thesis
    using assms by (auto simp add: isValidHeader_iff nth_append)
qed

lemma getExpectedLength_append:
  assumes "3 \<le> length buffer"
  shows "getExpectedLength (buffer @ xs) = getExpectedLength buffer"
proof -
  have "3 \<le> length (buffer @ xs)"
    using assms by simp
  then show ?thesis
    using assms by (auto simp add: getExpectedLength_eq nth_append)
qed

lemma processByte_short:
  "length buffer < 4 \<Longrightarrow> processByte buffer b = (buffer @ [b], None)"
  by (simp add: processByte_def Let_def)

lemma processByte_invalid:
  "4 \<le> length buffer \<Longrightarrow> \<not> isValidHeader (buffer @ [b]) \<Longrightarrow>
   processByte buffer b = (tl (buffer @ [b]), None)"
  by (simp add: processByte_def Let_def)

lemma processByte_grow:
  "4 \<le> length buffer \<Longrightarrow> isValidHeader (buffer @ [b]) \<Longrightarrow>
   int (length buffer) + 1 < getExpectedLength (buffer @ [b]) \<Longrightarrow>
   processByte buffer b = (buffer @ [b], None)"
  by (simp add: processByte_def Let_def)

lemma processByte_complete:
  "4 \<le> length buffer \<Longrightarrow> isValidHeader (buffer @ [b]) \<Longrightarrow>
   getExpectedLength (buffer @ [b]) \<le> int (length buffer) + 1 \<Longrightarrow>
   processByte buffer b =
     ([], if validateCRC (buffer @ [b]) (getExpectedLength (buffer @ [b]))
          then Some (slice0 (buffer @ [b]) (getExpectedLength (buffer @ [b]))) else None)"
  by (simp add: processByte_def Let_def)

lemma processByte_Some:
  assumes "processByte buffer b = (buffer', Some frame)"
  shows "buffer' = [] \<and> isValidHeader (buffer @ [b]) \<and>
         getExpectedLength (buffer @ [b]) \<le> int (length buffer) + 1 \<and>
         validateCRC (buffer @ [b]) (getExpectedLength (buffer @ [b])) \<and>
         frame = slice0 (buffer @ [b]) (getExpectedLength (buffer @ [b]))"
  using assms by (auto simp add: processByte_def Let_def split: if_splits)

subsection \<open>The CRC check\<close>

lemma sint_crc_word:
  "sint (push_bit 8 (ucast (hi :: byte)) OR ucast (lo :: byte) :: int32) =
   push_bit 8 (uint hi) OR uint lo"
proof -
  have "(push_bit 8 (ucast hi) OR ucast lo :: int32) =
        ucast (push_bit 8 (ucast hi) OR ucast lo :: 16 word)"
    by (rule bit_word_eqI) (auto simp add: bit_simps dest: bit_imp_le_length)
  moreover have "uint (push_bit 8 (ucast hi) OR ucast lo :: 16 word) =
        push_bit 8 (uint hi) OR uint lo"
    by (rule bit_eqI) (auto simp add: bit_simps dest: bit_imp_le_length)
  ultimately show ?thesis
    by (simp only: sint_ucast16)
qed

lemma receivedCRC_eq:
  assumes "2 \<le> L" and "L \<le> length buffer"
  shows "receivedCRC buffer (int L) =
         push_bit 8 (uint (buffer ! (L - 1))) OR uint (buffer ! (L - 2))"
proof -
  have e1: "int L - 1 = int (L - 1)" and e2: "int L - 2 = int (L - 2)"
    using assms by linarith+
  have a: "js_at buffer (int L - 1) = Some (buffer ! (L - 1))"
    unfolding e1 by (rule js_at_nat) (use assms in linarith)
  have b: "js_at buffer (int L - 2) = Some (buffer ! (L - 2))"
    unfolding e2 by (rule js_at_nat) (use assms in linarith)
  show ?thesis
    by (simp only: receivedCRC_def a b toInt32_def option.case sint_crc_word)
qed

lemma slice0_nat: "slice0 buffer (int n) = take n buffer"
  by (simp add: slice0_def)

lemma validateCRC_iff:
  assumes "2 \<le> L" and "L \<le> length buffer"
  shows "validateCRC buffer (int L) \<longleftrightarrow>
         calculateModbusCRC (take (L - 2) buffer) =
           push_bit 8 (uint (buffer ! (L - 1))) OR uint (buffer ! (L - 2))"
proof -
  have e2: "int L - 2 = int (L - 2)"
    using assms by linarith
  show ?thesis
    unfolding validateCRC_def receivedCRC_eq [OF assms] e2 slice0_nat by (rule eq_commute)
qed

lemma validateCRC_take:
  assumes "2 \<le> L" and "L \<le> length buffer"
  shows "validateCRC (take L buffer) (int L) = validateCRC buffer (int L)"
proof -
  have len: "L \<le> length (take L buffer)"
    using assms by simp
  have t: "take (L - 2) (take L buffer) = take (L - 2) buffer"
    by (simp add: min_absorb1)
  have n1: "take L buffer ! (L - 1) = buffer ! (L - 1)"
    using assms by simp
  have n2: "take L buffer ! (L - 2) = buffer ! (L - 2)"
    using assms by simp
  show ?thesis
    unfolding validateCRC_iff [OF assms] validateCRC_iff [OF assms(1) len] t n1 n2 ..
qed

lemma sample_0x24_crc: "validateCRC sample_0x24 41"
proof -
  have "calculateModbusCRC (take 39 sample_0x24) = 0x3134"
    by (simp add: sample_0x24_def calculateModbusCRC_def crc_byte_def funpow8 crc_shift_def)
  then show ?thesis
    using validateCRC_iff [of 41 sample_0x24] by (simp add: sample_0x24_def)
qed

subsection \<open>The synchronizer over a stream\<close>

lemma processStream_step:
  "processStream buffer (b # data) =
     (fst (processStream (fst (processByte buffer b)) data),
      (case snd (processByte buffer b) of None \<Rightarrow> [] | Some frame \<Rightarrow> [frame]) @
      snd (processStream (fst (processByte buffer b)) data))"
  by (cases "processByte buffer b") (auto split: option.splits prod.splits)

declare processStream.simps(2) [simp del]

lemma processStream_append:
  "processStream buffer (xs @ ys) =
     (fst (processStream (fst (processStream buffer xs)) ys),
      snd (processStream buffer xs) @ snd (processStream (fst (processStream buffer xs)) ys))"
proof (induction xs arbitrary: buffer)
  case Nil
  show ?case by simp
next
  case (Cons x xs)
  show ?case
    by (simp only: append_Cons processStream_step Cons.IH fst_conv snd_conv append_assoc)
qed

lemma processByte_frame_ok:
  assumes "processByte buffer b = (buffer', Some frame)"
  shows "frame_ok frame"
proof -
  define b1 where "b1 = buffer @ [b]"
  have valid: "isValidHeader b1"
    and le0: "getExpectedLength b1 \<le> int (length b1)"
    and crc0: "validateCRC b1 (getExpectedLength b1)"
    and fr0: "frame = slice0 b1 (getExpectedLength b1)"
    using processByte_Some [OF assms] by (simp_all add: b1_def)
  obtain L where L: "getExpectedLength b1 = int L" and L3: "23 \<le> L"
  proof -
    have "getExpectedLength b1 = int 41 \<or> getExpectedLength b1 = int 57 \<or>
          getExpectedLength b1 = int 23"
      using valid_header_length [OF valid] by simp
    then show ?thesis
      using that by fastforce
  qed
  have le: "L \<le> length b1"
    using le0 L by simp
  have crc: "validateCRC b1 (int L)"
    using crc0 L by simp
  have fr: "frame = take L b1"
    using fr0 L by (simp add: slice0_nat)
  have len: "length frame = L"
    using le fr by simp
  have b3: "3 \<le> length (take L b1)"
    using L3 le by simp
  have "isValidHeader (take L b1) = isValidHeader b1"
    using isValidHeader_append [OF b3, of "drop L b1"] by (simp only: append_take_drop_id)
  moreover have "getExpectedLength (take L b1) = getExpectedLength b1"
    using getExpectedLength_append [OF b3, of "drop L b1"] by (simp only: append_take_drop_id)
  moreover have "validateCRC (take L b1) (int L) = validateCRC b1 (int L)"
    using L3 le by (intro validateCRC_take) simp_all
  ultimately show ?thesis
    unfolding frame_ok_def len unfolding fr using valid crc L by simp
qed

lemma processStream_frames_ok:
  "frame \<in> set (snd (processStream buffer data)) \<Longrightarrow> frame_ok frame"
proof (induction data arbitrary: buffer)
  case Nil
  then show ?case by simp
next
  case (Cons b data)
  obtain buffer' out where pb: "processByte buffer b = (buffer', out)"
    by (cases "processByte buffer b")
  show ?case
  proof (cases out)
    case None
    then show ?thesis
      using Cons pb by (simp add: processStream_step)
  next
    case (Some f)
    then have "frame = f \<or> frame \<in> set (snd (processStream buffer' data))"
      using Cons.prems pb by (simp add: processStream_step)
    then show ?thesis
      using Cons.IH processByte_frame_ok pb Some by blast
  qed
qed

subsection \<open>The bound on the working buffer\<close>

lemma buffer_inv_bound: "buffer_inv buffer \<Longrightarrow> length buffer \<le> 56"
  using valid_header_length [of buffer] by (auto simp add: buffer_inv_def)

lemma buffer_inv_processByte:
  assumes "buffer_inv buffer"
  shows "buffer_inv (fst (processByte buffer b))"
proof (cases "length buffer < 4")
  case True
  then show ?thesis
    by (simp add: processByte_short buffer_inv_def)
next
  case False
  then have len: "4 \<le> length buffer"
    by simp
  then have len3: "3 \<le> length buffer"
    by simp
  show ?thesis
  proof (cases "isValidHeader (buffer @ [b])")
    case invalid: False
    have "length buffer \<le> 4"
      using assms invalid isValidHeader_append [OF len3, of "[b]"] by (simp add: buffer_inv_def)
    then show ?thesis
      using len invalid by (simp add: processByte_invalid buffer_inv_def)
  next
    case valid: True
    show ?thesis
    proof (cases "int (length buffer) + 1 < getExpectedLength (buffer @ [b])")
      case True
      then show ?thesis
        using len valid by (simp add: processByte_grow buffer_inv_def)
    next
      case False
      then show ?thesis
        using len valid by (simp add: processByte_complete buffer_inv_def)
    qed
  qed
qed

lemma buffer_inv_processStream:
  "buffer_inv buffer \<Longrightarrow> buffer_inv (fst (processStream buffer data))"
  by (induction data arbitrary: buffer) (simp_all add: processStream_step buffer_inv_processByte)

lemma buffer_inv_Nil: "buffer_inv []"
  by (simp add: buffer_inv_def)

text \<open>
  Claim C10. Feed any stream byte by byte into an empty synchronizer. After each input
  byte (that is, after any prefix of the stream) the working buffer holds at most 56 bytes,
  and the buffer with the next byte pushed, the longest the loop body ever sees, holds at
  most 57.
\<close>

theorem C10_buffer_bounded:
  "length (fst (processStream [] (take n data))) \<le> 56 \<and>
   length (fst (processStream [] (take n data)) @ [b]) \<le> 57"
  using buffer_inv_bound [OF buffer_inv_processStream [OF buffer_inv_Nil, of "take n data"]]
  by simp

subsection \<open>Resynchronization\<close>

lemma processStream_fill:
  "length buffer + length pre \<le> 4 \<Longrightarrow>
   processStream buffer (pre @ rest) = processStream (buffer @ pre) rest"
proof (induction pre arbitrary: buffer)
  case Nil
  show ?case by simp
next
  case (Cons x pre)
  have short: "length buffer < 4"
    using Cons.prems by simp
  have "length (buffer @ [x]) + length pre \<le> 4"
    using Cons.prems by simp
  then have "processStream (buffer @ [x]) (pre @ rest) = processStream ((buffer @ [x]) @ pre) rest"
    by (rule Cons.IH)
  then show ?case
    by (simp add: processStream_step processByte_short [OF short])
qed

lemma processStream_drop_one:
  assumes "length buffer = 4" and "\<not> isValidHeader (buffer @ [b])"
  shows "processStream buffer (b # data) = processStream (tl buffer @ [b]) data"
proof -
  have "processByte buffer b = (tl (buffer @ [b]), None)"
    using assms by (intro processByte_invalid) simp_all
  moreover have "tl (buffer @ [b]) = tl buffer @ [b]"
    using assms by (cases buffer) simp_all
  ultimately show ?thesis
    by (simp add: processStream_step)
qed

lemma processStream_skip:
  assumes "length buffer = 4" and "n \<le> length data"
    and "\<forall>i<n. \<not> isValidHeader (drop i (buffer @ data))"
  shows "processStream buffer data =
         processStream (take 4 (drop n (buffer @ data))) (drop n data)"
  using assms
proof (induction n arbitrary: buffer data)
  case 0
  then show ?case by simp
next
  case (Suc n)
  obtain b data' where data: "data = b # data'"
    using Suc.prems(2) by (cases data) simp_all
  have "\<not> isValidHeader (buffer @ data)"
    using Suc.prems(3) by (metis drop0 zero_less_Suc)
  moreover have "isValidHeader (buffer @ data) = isValidHeader (buffer @ [b])"
  proof -
    have "3 \<le> length (buffer @ [b])"
      using Suc.prems(1) by simp
    from isValidHeader_append [OF this, of data'] show ?thesis
      by (simp add: data)
  qed
  ultimately have invalid: "\<not> isValidHeader (buffer @ [b])"
    by simp
  have step: "processStream buffer data = processStream (tl buffer @ [b]) data'"
    unfolding data using Suc.prems(1) invalid by (rule processStream_drop_one)
  have tl_eq: "(tl buffer @ [b]) @ data' = drop 1 (buffer @ data)"
    using Suc.prems(1) by (cases buffer) (simp_all add: data)
  have len: "length (tl buffer @ [b]) = 4"
    using Suc.prems(1) by simp
  have n_le: "n \<le> length data'"
    using Suc.prems(2) by (simp add: data)
  have none: "\<forall>i<n. \<not> isValidHeader (drop i ((tl buffer @ [b]) @ data'))"
  proof (intro allI impI)
    fix i assume "i < n"
    then have "\<not> isValidHeader (drop (Suc i) (buffer @ data))"
      using Suc.prems(3) by simp
    then show "\<not> isValidHeader (drop i ((tl buffer @ [b]) @ data'))"
      unfolding tl_eq by (simp only: drop_drop Suc_eq_plus1 simp_thms)
  qed
  have "processStream (tl buffer @ [b]) data' =
        processStream (take 4 (drop n ((tl buffer @ [b]) @ data'))) (drop n data')"
    using len n_le none by (rule Suc.IH)
  also have "drop n ((tl buffer @ [b]) @ data') = drop (Suc n) (buffer @ data)"
    unfolding tl_eq by (simp only: drop_drop Suc_eq_plus1)
  also have "drop n data' = drop (Suc n) data"
    by (simp add: data)
  finally show ?case
    using step by simp
qed

lemma processStream_collect:
  assumes "4 \<le> length buffer" and "isValidHeader buffer"
    and "getExpectedLength buffer = int L" and "length buffer < L"
    and "length buffer + length data = L"
  shows "processStream buffer data =
         ([], if validateCRC (buffer @ data) (int L) then [buffer @ data] else [])"
  using assms
proof (induction data arbitrary: buffer)
  case Nil
  then show ?case by simp
next
  case (Cons b data)
  have b3: "3 \<le> length buffer"
    using Cons.prems(1) by simp
  have valid: "isValidHeader (buffer @ [b])"
    using isValidHeader_append [OF b3, of "[b]"] Cons.prems(2) by simp
  have L: "getExpectedLength (buffer @ [b]) = int L"
    using getExpectedLength_append [OF b3, of "[b]"] Cons.prems(3) by simp
  show ?case
  proof (cases data)
    case Nil
    have len: "length buffer + 1 = L"
      using Cons.prems(5) Nil by simp
    have "processByte buffer b =
       ([], if validateCRC (buffer @ [b]) (int L) then Some (take L (buffer @ [b])) else None)"
      using processByte_complete [OF Cons.prems(1) valid] len
      by (simp add: L slice0_nat)
    moreover have "take L (buffer @ [b]) = buffer @ [b]"
      using len by simp
    ultimately show ?thesis
      by (simp add: processStream_step Nil)
  next
    case (Cons c data')
    have grow: "processByte buffer b = (buffer @ [b], None)"
      using Cons.prems(1) valid
    proof (rule processByte_grow)
      show "int (length buffer) + 1 < getExpectedLength (buffer @ [b])"
        using \<open>length buffer + length (b # data) = L\<close> Cons by (simp add: L)
    qed
    have "processStream (buffer @ [b]) data =
          ([], if validateCRC ((buffer @ [b]) @ data) (int L) then [(buffer @ [b]) @ data] else [])"
    proof (rule Cons.IH [unfolded Cons, folded Cons])
      show "4 \<le> length (buffer @ [b])"
        using \<open>4 \<le> length buffer\<close> by simp
      show "isValidHeader (buffer @ [b])"
        by (rule valid)
      show "getExpectedLength (buffer @ [b]) = int L"
        by (rule L)
      show "length (buffer @ [b]) < L"
        using \<open>length buffer + length (b # data) = L\<close> Cons by simp
      show "length (buffer @ [b]) + length data = L"
        using \<open>length buffer + length (b # data) = L\<close> by simp
    qed
    then show ?thesis
      by (simp add: processStream_step grow)
  qed
qed

lemma processStream_resync:
  assumes val: "isValidHeader frame"
    and len: "int (length frame) = getExpectedLength frame"
    and noise: "\<forall>i<length noise. \<not> isValidHeader (drop i (noise @ frame))"
  shows "processStream [] (noise @ frame) =
         ([], if validateCRC frame (int (length frame)) then [frame] else [])"
proof -
  let ?s = "noise @ frame"
  have flen: "23 \<le> length frame"
    using valid_header_length [OF val] len by linarith
  have s4: "4 \<le> length ?s"
    using flen by simp
  have "processStream [] (take 4 ?s @ drop 4 ?s) = processStream ([] @ take 4 ?s) (drop 4 ?s)"
    by (rule processStream_fill) simp
  then have a: "processStream [] ?s = processStream (take 4 ?s) (drop 4 ?s)"
    by (simp only: append_take_drop_id append_Nil)
  have "processStream (take 4 ?s) (drop 4 ?s) =
        processStream (take 4 (drop (length noise) (take 4 ?s @ drop 4 ?s)))
          (drop (length noise) (drop 4 ?s))"
  proof (rule processStream_skip)
    show "length (take 4 ?s) = 4"
      using s4 by simp
    show "length noise \<le> length (drop 4 ?s)"
      using flen by simp
    show "\<forall>i<length noise. \<not> isValidHeader (drop i (take 4 ?s @ drop 4 ?s))"
      using noise by (simp only: append_take_drop_id)
  qed
  also have "drop (length noise) (take 4 ?s @ drop 4 ?s) = frame"
    by (simp only: append_take_drop_id) simp
  also have "drop (length noise) (drop 4 ?s) = drop 4 frame"
  proof -
    have "drop (length noise) (drop 4 ?s) = drop 4 (drop (length noise) ?s)"
      by (simp only: drop_drop add.commute)
    then show ?thesis
      by simp
  qed
  finally have b: "processStream (take 4 ?s) (drop 4 ?s) =
        processStream (take 4 frame) (drop 4 frame)" .
  have "processStream (take 4 frame) (drop 4 frame) =
        ([], if validateCRC (take 4 frame @ drop 4 frame) (int (length frame))
             then [take 4 frame @ drop 4 frame] else [])"
  proof (rule processStream_collect)
    have t3: "3 \<le> length (take 4 frame)"
      using flen by simp
    show "4 \<le> length (take 4 frame)"
      using flen by simp
    show "isValidHeader (take 4 frame)"
      using isValidHeader_append [OF t3, of "drop 4 frame"] val
      by (simp only: append_take_drop_id)
    show "getExpectedLength (take 4 frame) = int (length frame)"
      using getExpectedLength_append [OF t3, of "drop 4 frame"] len
      by (simp only: append_take_drop_id)
    show "length (take 4 frame) < length frame"
      using flen by simp
    show "length (take 4 frame) + length (drop 4 frame) = length frame"
      using flen by simp
  qed
  then have c: "processStream (take 4 frame) (drop 4 frame) =
        ([], if validateCRC frame (int (length frame)) then [frame] else [])"
    by (simp only: append_take_drop_id)
  show ?thesis
    using a b c by simp
qed

subsection \<open>The numeric decoders\<close>

lemma decode_0x24_Inr:
  assumes "37 \<le> length buffer"
  shows "decode_0x24 folder buffer = Inr
     [(folder @ ''.pack_voltage'',
        \<lparr>upd_value = Number (js_div (of_int (u16 buffer 3)) 100), upd_unit = Some ''V'',
         upd_role = ''value.voltage'', upd_ctype = ''number''\<rparr>),
      (folder @ ''.current'',
        \<lparr>upd_value = Number (js_div (of_int (i16 buffer 5)) 100), upd_unit = Some ''A'',
         upd_role = ''value.current'', upd_ctype = ''number''\<rparr>),
      (folder @ ''.remaining_capacity'',
        \<lparr>upd_value = Number (js_div (of_int (u16 buffer 7)) 100), upd_unit = Some ''Ah'',
         upd_role = ''value'', upd_ctype = ''number''\<rparr>),
      (folder @ ''.total_capacity'',
        \<lparr>upd_value = Number (js_div (of_int (u16 buffer 9)) 100), upd_unit = Some ''AH'',
         upd_role = ''value'', upd_ctype = ''number''\<rparr>),
      (folder @ ''.total_discharge_capacity'',
        \<lparr>upd_value = Number (js_div (of_int (u16 buffer 11)) (js_lit (1 / 10))),
         upd_unit = Some ''AH'', upd_role = ''value'', upd_ctype = ''number''\<rparr>),
      (folder @ ''.soc'',
        \<lparr>upd_value = Number (js_div (of_int (u16 buffer 13)) 10), upd_unit = Some ''%'',
         upd_role = ''value'', upd_ctype = ''number''\<rparr>),
      (folder @ ''.soh'',
        \<lparr>upd_value = Number (js_div (of_int (u16 buffer 15)) 10), upd_unit = Some ''%'',
         upd_role = ''value'', upd_ctype = ''number''\<rparr>),
      (folder @ ''.cycle_count'',
        \<lparr>upd_value = Number (of_int (u16 buffer 17)), upd_unit = Some ''cycles'',
         upd_role = ''value'', upd_ctype = ''number''\<rparr>),
      (folder @ ''.average_cell_voltage'',
        \<lparr>upd_value = Number (js_div (of_int (u16 buffer 19)) 1000), upd_unit = Some ''V'',
         upd_role = ''value.voltage'', upd_ctype = ''number''\<rparr>),
      (folder @ ''.average_cell_temp'',
        \<lparr>upd_value = Number (celsius (of_int (i16 buffer 21))), upd_unit = Some degC,
         upd_role = ''value.temperature'', upd_ctype = ''number''\<rparr>),
      (folder @ ''.max_cell_voltage'',
        \<lparr>upd_value = Number (js_div (of_int (u16 buffer 23)) 1000), upd_unit = Some ''V'',
         upd_role = ''value.voltage'', upd_ctype = ''number''\<rparr>),
      (folder @ ''.min_cell_voltage'',
        \<lparr>upd_value = Number (js_div (of_int (u16 buffer 25)) 1000), upd_unit = Some ''V'',
         upd_role = ''value.voltage'', upd_ctype = ''number''\<rparr>),
      (folder @ ''.max_cell_temp'',
        \<lparr>upd_value = Number (celsius (of_int (u16 buffer 27))), upd_unit = Some degC,
         upd_role = ''value.temperature'', upd_ctype = ''number''\<rparr>),
      (folder @ ''.min_cell_temp'',
        \<lparr>upd_value = Number (celsius (of_int (u16 buffer 29))), upd_unit = Some degC,
         upd_role = ''value.temperature'', upd_ctype = ''number''\<rparr>),
      (folder @ ''.maxdiscurt'',
        \<lparr>upd_value = Number (js_div (of_int (u16 buffer 33)) 1), upd_unit = Some ''A'',
         upd_role = ''value.current'', upd_ctype = ''number''\<rparr>),
      (folder @ ''.maxchgcurt'',
        \<lparr>upd_value = Number (js_div (of_int (u16 buffer 35)) 1), upd_unit = Some ''A'',
         upd_role = ''value.current'', upd_ctype = ''number''\<rparr>)]"
  using assms
  by (simp add: decode_0x24_def num_entry_def readUInt16BE_def readInt16BE_def)

lemma decode_0x24_frame:
  assumes "js_at frame 2 = Some 0x24" and "length frame = 41"
  shows "\<exists>updates. decode folder frame = Inr updates \<and> length updates = 16"
proof -
  have "37 \<le> length frame"
    using assms(2) by simp
  from decode_0x24_Inr [OF this, of folder] show ?thesis
    using assms(1) by (simp add: decode_def)
qed

subsection \<open>The sample frame\<close>

lemma sample_0x24_header:
  "isValidHeader sample_0x24 \<and> length sample_0x24 = 41 \<and> getExpectedLength sample_0x24 = 41 \<and>
   sample_0x24 ! 2 = 0x24 \<and> js_at sample_0x24 2 = Some 0x24"
  by (simp add: sample_0x24_def isValidHeader_def getExpectedLength_def js_at_def address_ok_def)

lemma sample_0x24_alone: "processStream [] sample_0x24 = ([], [sample_0x24])"
proof -
  have "processStream [] ([] @ sample_0x24) =
        ([], if validateCRC sample_0x24 (int (length sample_0x24)) then [sample_0x24] else [])"
    by (rule processStream_resync) (simp_all add: sample_0x24_header)
  then show ?thesis
    using sample_0x24_crc by (simp add: sample_0x24_header)
qed

text \<open>
  Claim C2. A candidate (a buffer with a valid header that has reached its declared length
  L) is accepted exactly when the CRC computed over its bytes [0, L-2) equals the byte at
  L-1 shifted left by 8 bits OR the byte at L-2. The step then clears the working buffer,
  and hands the first L bytes on when the check passed and nothing when it failed. No step
  and no stream hands a frame on that has not passed the check.
\<close>

theorem C2_crc_gate:
  "(4 \<le> length buffer \<and> isValidHeader (buffer @ [b]) \<and>
    getExpectedLength (buffer @ [b]) = int L \<and> L \<le> length buffer + 1 \<longrightarrow>
      (validateCRC (buffer @ [b]) (int L) \<longleftrightarrow>
         calculateModbusCRC (take (L - 2) (buffer @ [b])) =
           push_bit 8 (uint ((buffer @ [b]) ! (L - 1))) OR uint ((buffer @ [b]) ! (L - 2))) \<and>
      processByte buffer b =
        ([], if validateCRC (buffer @ [b]) (int L) then Some (take L (buffer @ [b])) else None)) \<and>
   (\<forall>buffer' frame. processByte buffer b = (buffer', Some frame) \<longrightarrow>
      validateCRC (buffer @ [b]) (getExpectedLength (buffer @ [b])) \<and> frame_ok frame) \<and>
   (\<forall>frame \<in> set (snd (processStream buffer0 data)). frame_ok frame)"
proof (intro conjI impI allI ballI)
  assume a: "4 \<le> length buffer \<and> isValidHeader (buffer @ [b]) \<and>
    getExpectedLength (buffer @ [b]) = int L \<and> L \<le> length buffer + 1"
  then have "getExpectedLength (buffer @ [b]) = 41 \<or> getExpectedLength (buffer @ [b]) = 57 \<or>
      getExpectedLength (buffer @ [b]) = 23"
    by (intro valid_header_length) simp
  then have L2: "2 \<le> L"
    using a by auto
  have le: "L \<le> length (buffer @ [b])"
    using a by simp
  show "validateCRC (buffer @ [b]) (int L) \<longleftrightarrow>
         calculateModbusCRC (take (L - 2) (buffer @ [b])) =
           push_bit 8 (uint ((buffer @ [b]) ! (L - 1))) OR uint ((buffer @ [b]) ! (L - 2))"
    using L2 le by (rule validateCRC_iff)
  have "getExpectedLength (buffer @ [b]) \<le> int (length buffer) + 1"
    using a by simp
  with a have "processByte buffer b =
     ([], if validateCRC (buffer @ [b]) (getExpectedLength (buffer @ [b]))
          then Some (slice0 (buffer @ [b]) (getExpectedLength (buffer @ [b]))) else None)"
    by (intro processByte_complete) simp_all
  then show "processByte buffer b =
        ([], if validateCRC (buffer @ [b]) (int L) then Some (take L (buffer @ [b])) else None)"
    using a by (simp add: slice0_nat)
next
  fix buffer' frame
  assume "processByte buffer b = (buffer', Some frame)"
  then show "validateCRC (buffer @ [b]) (getExpectedLength (buffer @ [b]))"
    using processByte_Some by blast
next
  fix buffer' frame
  assume "processByte buffer b = (buffer', Some frame)"
  then show "frame_ok frame"
    by (rule processByte_frame_ok)
next
  fix frame
  assume "frame \<in> set (snd (processStream buffer0 data))"
  then show "frame_ok frame"
    by (rule processStream_frames_ok)
qed

theorem C2_crc_gate_witness:
  "4 \<le> length (butlast sample_0x24) \<and> isValidHeader (butlast sample_0x24 @ [0x31]) \<and>
   getExpectedLength (butlast sample_0x24 @ [0x31]) = int 41 \<and>
   41 \<le> length (butlast sample_0x24) + 1 \<and>
   validateCRC (butlast sample_0x24 @ [0x31]) (int 41) \<and>
   processByte (butlast sample_0x24) 0x31 = ([], Some sample_0x24) \<and>
   sample_0x24 \<in> set (snd (processStream [] sample_0x24)) \<and> frame_ok sample_0x24"
proof -
  have s: "butlast sample_0x24 @ [0x31] = sample_0x24"
    by (simp add: sample_0x24_def)
  have len: "length (butlast sample_0x24) = 40"
    by (simp add: sample_0x24_def)
  show ?thesis
    using C2_crc_gate [of "butlast sample_0x24" "0x31" 41 "[]" sample_0x24]
      sample_0x24_crc
    by (simp add: s len sample_0x24_header sample_0x24_alone)
qed

subsection \<open>Noise before a frame\<close>

text \<open>
  Claim C4, as amended. Let a well-formed, CRC-valid 41-byte frame of subtype 0x24 follow
  N noise bytes, for any N, such that no valid header starts at a position inside the
  noise. Fed to an empty synchronizer, the stream yields exactly one frame, the frame
  itself, the buffer is empty afterwards, and the decoder turns the frame into one record
  set of 16 records. While the buffer start fails the header check, a step drops exactly
  the first byte of the buffer.
\<close>

theorem C4_resync:
  "(isValidHeader frame \<and> frame ! 2 = 0x24 \<and> length frame = 41 \<and> validateCRC frame 41 \<and>
    (\<forall>i<length noise. \<not> isValidHeader (drop i (noise @ frame))) \<longrightarrow>
      processStream [] (noise @ frame) = ([], [frame]) \<and>
      (\<exists>updates. decode (bmsFolder frame) frame = Inr updates \<and> length updates = 16)) \<and>
   (4 \<le> length buffer \<and> \<not> isValidHeader (buffer @ [b]) \<longrightarrow>
      processByte buffer b = (tl (buffer @ [b]), None))"
proof (intro conjI impI)
  assume a: "isValidHeader frame \<and> frame ! 2 = 0x24 \<and> length frame = 41 \<and>
    validateCRC frame 41 \<and> (\<forall>i<length noise. \<not> isValidHeader (drop i (noise @ frame)))"
  have at2: "js_at frame 2 = Some 0x24"
    using a by (simp add: js_at_def)
  have len: "int (length frame) = getExpectedLength frame"
    using a at2 by (simp add: getExpectedLength_def)
  have "processStream [] (noise @ frame) =
        ([], if validateCRC frame (int (length frame)) then [frame] else [])"
    using a len by (intro processStream_resync) simp_all
  then show "processStream [] (noise @ frame) = ([], [frame])"
    using a by simp
  show "\<exists>updates. decode (bmsFolder frame) frame = Inr updates \<and> length updates = 16"
    using at2 a by (intro decode_0x24_frame) simp_all
next
  assume "4 \<le> length buffer \<and> \<not> isValidHeader (buffer @ [b])"
  then show "processByte buffer b = (tl (buffer @ [b]), None)"
    by (intro processByte_invalid) simp_all
qed

theorem C4_resync_witness:
  "isValidHeader sample_0x24 \<and> sample_0x24 ! 2 = 0x24 \<and> length sample_0x24 = 41 \<and>
   validateCRC sample_0x24 41 \<and>
   \<not> isValidHeader (drop 0 ([0xFF, 0x00, 0x01] @ sample_0x24)) \<and>
   \<not> isValidHeader (drop 1 ([0xFF, 0x00, 0x01] @ sample_0x24)) \<and>
   \<not> isValidHeader (drop 2 ([0xFF, 0x00, 0x01] @ sample_0x24)) \<and>
   processStream [] ([0xFF, 0x00, 0x01] @ sample_0x24) = ([], [sample_0x24]) \<and>
   4 \<le> length [0xFF, 0x00, 0x01, 0x01 :: byte] \<and>
   \<not> isValidHeader ([0xFF, 0x00, 0x01, 0x01] @ [0x04]) \<and>
   processByte [0xFF, 0x00, 0x01, 0x01] 0x04 = ([0x00, 0x01, 0x01, 0x04], None)"
proof -
  have n: "\<not> isValidHeader (drop 0 ([0xFF, 0x00, 0x01] @ sample_0x24))"
    "\<not> isValidHeader (drop 1 ([0xFF, 0x00, 0x01] @ sample_0x24))"
    "\<not> isValidHeader (drop 2 ([0xFF, 0x00, 0x01] @ sample_0x24))"
    by (simp_all add: sample_0x24_def isValidHeader_def js_at_def address_ok_def)
  have noise: "\<forall>i<length [0xFF, 0x00, 0x01 :: byte].
      \<not> isValidHeader (drop i ([0xFF, 0x00, 0x01] @ sample_0x24))"
  proof (intro allI impI)
    fix i :: nat
    assume "i < length [0xFF, 0x00, 0x01 :: byte]"
    then have "i = 0 \<or> i = 1 \<or> i = 2"
      by auto
    then show "\<not> isValidHeader (drop i ([0xFF, 0x00, 0x01] @ sample_0x24))"
      using n by auto
  qed
  have inv: "\<not> isValidHeader ([0xFF, 0x00, 0x01, 0x01] @ [0x04])"
    by (simp add: isValidHeader_def js_at_def address_ok_def)
  show ?thesis
    using C4_resync [of sample_0x24 "[0xFF, 0x00, 0x01]" "[0xFF, 0x00, 0x01, 0x01]" "0x04"]
      n noise inv sample_0x24_crc sample_0x24_header
    by simp
qed

text \<open>
  The claim as stated fails for noise that looks like a header. After the noise bytes
  01 04 24 the synchronizer takes the noise and the first 38 bytes of the frame for a
  candidate, rejects it, and is left with the last three bytes of the frame: no record set.
\<close>

lemma header_noise_candidate:
  "processStream [] (take 41 ([0x01, 0x04, 0x24] @ sample_0x24)) = ([], [])"
proof -
  define c where "c = take 41 ([0x01, 0x04, 0x24] @ sample_0x24)"
  have hdr: "isValidHeader c" and len: "int (length c) = getExpectedLength c"
    and len41: "length c = 41"
    by (simp_all add: c_def sample_0x24_def isValidHeader_def getExpectedLength_def js_at_def
        address_ok_def)
  have ne: "calculateModbusCRC (take 39 c) \<noteq> push_bit 8 (uint (c ! 40)) OR uint (c ! 39)"
    by (simp add: c_def sample_0x24_def calculateModbusCRC_def crc_byte_def funpow8 crc_shift_def)
  have "validateCRC c (int 41) \<longleftrightarrow>
        calculateModbusCRC (take (41 - 2) c) =
          push_bit 8 (uint (c ! (41 - 1))) OR uint (c ! (41 - 2))"
    by (rule validateCRC_iff) (simp_all add: len41)
  then have crc: "\<not> validateCRC c (int (length c))"
    using ne by (simp add: len41)
  have "processStream [] ([] @ c) = ([], if validateCRC c (int (length c)) then [c] else [])"
    using hdr len by (intro processStream_resync) simp_all
  then show ?thesis
    using crc by (simp add: c_def)
qed

theorem C4_header_noise_counterexample:
  "isValidHeader sample_0x24 \<and> sample_0x24 ! 2 = 0x24 \<and> length sample_0x24 = 41 \<and>
   validateCRC sample_0x24 41 \<and>
   processStream [] ([0x01, 0x04, 0x24] @ sample_0x24) = ([0x00, 0x34, 0x31], [])"
proof -
  let ?s = "[0x01, 0x04, 0x24] @ sample_0x24"
  have split: "?s = take 41 ?s @ [0x00, 0x34, 0x31]"
    by (simp add: sample_0x24_def)
  have rest: "processStream [] ([0x00, 0x34, 0x31] @ []) = processStream ([] @ [0x00, 0x34, 0x31]) []"
    by (rule processStream_fill) simp
  have "processStream [] (take 41 ?s @ [0x00, 0x34, 0x31]) = ([0x00, 0x34, 0x31], [])"
    unfolding processStream_append header_noise_candidate using rest by simp
  then have "processStream [] ?s = ([0x00, 0x34, 0x31], [])"
    using split by simp
  then show ?thesis
    using sample_0x24_crc sample_0x24_header by simp
qed

subsection \<open>The alarm and status decoder\<close>

lemma upt_8: "[0..<8] = [0, 1, 2, 3, 4, 5, 6, 7]"
  by (simp add: upt_rec)

lemma bit_test:
  assumes "i < 8"
  shows "signed_drop_bit i (ucast (b :: byte) :: int32) AND 1 \<noteq> 0 \<longleftrightarrow> bit b i"
proof -
  have "signed_drop_bit i (ucast b :: int32) AND 1 = of_bool (bit (signed_drop_bit i (ucast b :: int32)) 0)"
    by (simp add: and_one_eq bit_0 mod_2_eq_odd)
  also have "bit (signed_drop_bit i (ucast b :: int32)) 0 \<longleftrightarrow> bit b i"
    using assms by (simp add: bit_simps)
  finally show ?thesis
    by simp
qed

lemma cells_Some:
  "cells (parseBits (Some b)) first = map (\<lambda>i. i + first) (filter (bit b) [0..<8])"
proof -
  have "cells (parseBits (Some b)) first =
        map (\<lambda>i. i + first)
          (filter (\<lambda>i. signed_drop_bit i (ucast b :: int32) AND 1 \<noteq> 0) [0..<8])"
    by (simp add: cells_def parseBits_def toInt32_def upt_8)
  also have "filter (\<lambda>i. signed_drop_bit i (ucast b :: int32) AND 1 \<noteq> 0) [0..<8] =
        filter (bit b) [0..<8]"
    by (rule filter_cong) (simp_all add: bit_test)
  finally show ?thesis .
qed

lemma cells_None: "cells (parseBits None) first = []"
  by (simp add: cells_def parseBits_def toInt32_def upt_8)

lemma lowVoltageCells_eq:
  assumes "5 \<le> length buffer"
  shows "lowVoltageCells buffer =
         map (\<lambda>i. i + 1) (filter (bit (buffer ! 3)) [0..<8]) @
         map (\<lambda>i. i + 9) (filter (bit (buffer ! 4)) [0..<8])"
proof -
  have "js_at buffer 3 = Some (buffer ! 3)" and "js_at buffer 4 = Some (buffer ! 4)"
    using assms by (auto simp add: js_at_def)
  then show ?thesis
    by (simp add: lowVoltageCells_def cells_Some)
qed

lemma lowVoltageCells_bit:
  assumes "5 \<le> length buffer" and "i < 8"
  shows "Suc i \<in> set (lowVoltageCells buffer) \<longleftrightarrow> bit (buffer ! 3) i"
  using assms by (auto simp add: lowVoltageCells_eq)

lemma filter_bit_5: "filter (bit (5 :: byte)) [0..<8] = [0, 2]"
  unfolding upt_8 by simp

lemma filter_bit_0: "filter (bit (0 :: byte)) [0..<8] = []"
  by simp

lemma voltage_event_1:
  assumes "13 \<le> length buffer" and "buffer ! 12 = 0x01"
  shows "voltage_event_alarms buffer = [''Cell High Voltage Alarm'']"
    and "voltage_event_protections buffer = []"
proof -
  have "js_at buffer 12 = Some 0x01"
    using assms by (auto simp add: js_at_def)
  then show "voltage_event_alarms buffer = [''Cell High Voltage Alarm'']"
    and "voltage_event_protections buffer = []"
    by (simp_all add: voltage_event_alarms_def voltage_event_protections_def flag_def toInt32_def)
qed

lemma decode_0x12_text:
  assumes "e \<in> set (decode_0x12 folder buffer)"
  shows "upd_ctype (snd e) = ''string'' \<and> upd_role (snd e) = ''text'' \<and>
         upd_unit (snd e) = None \<and> (\<exists>s. upd_value (snd e) = String s)"
  using assms by (auto simp add: decode_0x12_def text_entry_def)

lemma filter_flag:
  "filter P (flag buffer i m label) = (if P label then flag buffer i m label else [])"
  by (simp add: flag_def)

lemma activeAlarms_voltage_1:
  assumes "13 \<le> length buffer" and "buffer ! 12 = 0x01"
  shows "activeAlarms buffer =
           ''Cell High Voltage Alarm'' #
           (temperature_event_alarms buffer @ environment_event_alarms buffer @
            current_event_alarms buffer @ second_current_event_alarms buffer @
            residual_capacity_alarms buffer @ equalization_state_alarms buffer)"
    and "activeProtections buffer =
           temperature_event_protections buffer @ environment_event_protections buffer @
           current_event_protections buffer @ residual_capacity_protections buffer @
           equalization_state_protections buffer @ hard_fault_protections buffer"
  using voltage_event_1 [OF assms] by (simp_all add: activeAlarms_def activeProtections_def)

lemma other_events_no_voltage_label:
  fixes P :: "string \<Rightarrow> bool"
  defines "P \<equiv> \<lambda>l. l \<in> set voltage_event_labels"
  shows "filter P (temperature_event_alarms buffer) = []"
    and "filter P (environment_event_alarms buffer) = []"
    and "filter P (current_event_alarms buffer) = []"
    and "filter P (second_current_event_alarms buffer) = []"
    and "filter P (residual_capacity_alarms buffer) = []"
    and "filter P (equalization_state_alarms buffer) = []"
    and "filter P (temperature_event_protections buffer) = []"
    and "filter P (environment_event_protections buffer) = []"
    and "filter P (current_event_protections buffer) = []"
    and "filter P (residual_capacity_protections buffer) = []"
    and "filter P (equalization_state_protections buffer) = []"
    and "filter P (hard_fault_protections buffer) = []"
  unfolding P_def voltage_event_labels_def
    temperature_event_alarms_def environment_event_alarms_def current_event_alarms_def
    second_current_event_alarms_def residual_capacity_alarms_def equalization_state_alarms_def
    temperature_event_protections_def environment_event_protections_def
    current_event_protections_def residual_capacity_protections_def
    equalization_state_protections_def hard_fault_protections_def
  by (simp_all add: filter_flag)

lemma voltage_labels_of_active:
  assumes "13 \<le> length buffer" and "buffer ! 12 = 0x01"
  shows "filter (\<lambda>l. l \<in> set voltage_event_labels) (activeAlarms buffer) =
           [''Cell High Voltage Alarm'']"
    and "filter (\<lambda>l. l \<in> set voltage_event_labels) (activeProtections buffer) = []"
proof -
  have "''Cell High Voltage Alarm'' \<in> set voltage_event_labels"
    by (simp add: voltage_event_labels_def)
  then show "filter (\<lambda>l. l \<in> set voltage_event_labels) (activeAlarms buffer) =
           [''Cell High Voltage Alarm'']"
    unfolding activeAlarms_voltage_1 [OF assms]
    by (simp add: other_events_no_voltage_label)
  show "filter (\<lambda>l. l \<in> set voltage_event_labels) (activeProtections buffer) = []"
    unfolding activeAlarms_voltage_1 [OF assms]
    by (simp add: other_events_no_voltage_label)
qed

lemma flag_zero:
  assumes "n < length buffer" and "buffer ! n = 0"
  shows "flag buffer (int n) m label = []"
proof -
  have "js_at buffer (int n) = Some 0"
    using assms by (simp add: js_at_def)
  then show ?thesis
    by (simp add: flag_def toInt32_def)
qed

lemma only_voltage_event_1:
  assumes "21 \<le> length buffer" and "buffer ! 12 = 0x01"
    and "buffer ! 13 = 0" and "buffer ! 14 = 0" and "buffer ! 15 = 0" and "buffer ! 16 = 0"
    and "buffer ! 17 = 0" and "buffer ! 19 = 0" and "buffer ! 20 = 0"
  shows "activeAlarms buffer = [''Cell High Voltage Alarm'']"
    and "activeProtections buffer = []"
proof -
  have len: "13 \<le> length buffer"
    using assms(1) by simp
  have z: "\<And>m label. flag buffer 13 m label = []" "\<And>m label. flag buffer 14 m label = []"
    "\<And>m label. flag buffer 15 m label = []" "\<And>m label. flag buffer 16 m label = []"
    "\<And>m label. flag buffer 17 m label = []" "\<And>m label. flag buffer 19 m label = []"
    "\<And>m label. flag buffer 20 m label = []"
    using flag_zero [of 13 buffer] flag_zero [of 14 buffer] flag_zero [of 15 buffer]
      flag_zero [of 16 buffer] flag_zero [of 17 buffer] flag_zero [of 19 buffer]
      flag_zero [of 20 buffer] assms
    by simp_all
  show "activeAlarms buffer = [''Cell High Voltage Alarm'']"
    unfolding activeAlarms_voltage_1 [OF len assms(2)]
    by (simp add: z temperature_event_alarms_def environment_event_alarms_def
        current_event_alarms_def second_current_event_alarms_def residual_capacity_alarms_def
        equalization_state_alarms_def)
  show "activeProtections buffer = []"
    unfolding activeAlarms_voltage_1 [OF len assms(2)]
    by (simp add: z temperature_event_protections_def environment_event_protections_def
        current_event_protections_def residual_capacity_protections_def
        equalization_state_protections_def hard_fault_protections_def)
qed

lemma decode_0x12_records:
  "map_of (decode_0x12 folder buffer) (folder @ ''.cell_voltage_alarms'') =
     Some \<lparr>upd_value = String (low_high_string (lowVoltageCells buffer) (highVoltageCells buffer)),
           upd_unit = None, upd_role = ''text'', upd_ctype = ''string''\<rparr>"
  "map_of (decode_0x12 folder buffer) (folder @ ''.active_alarms'') =
     Some \<lparr>upd_value = String (join '', '' (activeAlarms buffer)),
           upd_unit = None, upd_role = ''text'', upd_ctype = ''string''\<rparr>"
  "map_of (decode_0x12 folder buffer) (folder @ ''.active_protections'') =
     Some \<lparr>upd_value = String (join '', '' (activeProtections buffer)),
           upd_unit = None, upd_role = ''text'', upd_ctype = ''string''\<rparr>"
  by (simp_all add: decode_0x12_def text_entry_def)

lemma highVoltageCells_zero:
  assumes "7 \<le> length buffer" and "buffer ! 5 = 0" and "buffer ! 6 = 0"
  shows "highVoltageCells buffer = []"
proof -
  have "js_at buffer 5 = Some 0" and "js_at buffer 6 = Some 0"
    using assms by (auto simp add: js_at_def)
  then show ?thesis
    by (simp add: highVoltageCells_def cells_Some)
qed

lemma low_1_3_string: "low_high_string [1, 3] [] = ''Low: 1, 3''"
  by (simp add: low_high_string_def cell_list_def show_nat.simps digit_char_def)

text \<open>
  Claim C6. In an alarm/status frame, bit i (least significant first, i below 8) of byte 3
  is set exactly when cell i+1 is in the low-voltage alarm list; with byte 3 = 0b00000101
  (and no low-voltage bit for the cells 9 to 16 in byte 4) the list is [1, 3], and when no
  high-voltage bit is set either (bytes 5 and 6) the record \<open>cell_voltage_alarms\<close> of the
  decoder holds the text "Low: 1, 3". With byte 12 = 0x01 the voltage event byte contributes
  exactly the alarm "Cell High Voltage Alarm" and no protection: the list of active alarms
  of the decoder is this label followed by the alarms of the other event bytes, the list of
  active protections is that of the other event bytes, and of the eight voltage event labels
  the only one in either list is "Cell High Voltage Alarm", once, among the alarms. When
  the other event bytes (13 to 17, 19 and 20) are zero, the record \<open>active_alarms\<close> holds
  exactly the text "Cell High Voltage Alarm" and the record \<open>active_protections\<close> the empty
  text. The records \<open>cell_voltage_alarms\<close>, \<open>active_alarms\<close> and \<open>active_protections\<close> of
  the decoder always hold the joined lists. The decoder produces seven records for this
  subtype, each of type string with role text and a text value, none numeric.
\<close>

theorem C6_alarm_decoder:
  "(5 \<le> length buffer \<and> i < 8 \<longrightarrow>
      (Suc i \<in> set (lowVoltageCells buffer) \<longleftrightarrow> bit (buffer ! 3) i)) \<and>
   (5 \<le> length buffer \<and> buffer ! 3 = 0x05 \<and> buffer ! 4 = 0x00 \<longrightarrow>
      lowVoltageCells buffer = [1, 3]) \<and>
   (13 \<le> length buffer \<and> buffer ! 12 = 0x01 \<longrightarrow>
      voltage_event_alarms buffer = [''Cell High Voltage Alarm''] \<and>
      voltage_event_protections buffer = []) \<and>
   (js_at buffer 2 = Some 0x12 \<longrightarrow> decode folder buffer = Inr (decode_0x12 folder buffer)) \<and>
   length (decode_0x12 folder buffer) = 7 \<and>
   (\<forall>e \<in> set (decode_0x12 folder buffer).
      upd_ctype (snd e) = ''string'' \<and> upd_role (snd e) = ''text'' \<and>
      (\<exists>s. upd_value (snd e) = String s)) \<and>
   (13 \<le> length buffer \<and> buffer ! 12 = 0x01 \<longrightarrow>
      activeAlarms buffer =
        ''Cell High Voltage Alarm'' #
        (temperature_event_alarms buffer @ environment_event_alarms buffer @
         current_event_alarms buffer @ second_current_event_alarms buffer @
         residual_capacity_alarms buffer @ equalization_state_alarms buffer) \<and>
      activeProtections buffer =
        temperature_event_protections buffer @ environment_event_protections buffer @
        current_event_protections buffer @ residual_capacity_protections buffer @
        equalization_state_protections buffer @ hard_fault_protections buffer \<and>
      filter (\<lambda>l. l \<in> set voltage_event_labels) (activeAlarms buffer) =
        [''Cell High Voltage Alarm''] \<and>
      filter (\<lambda>l. l \<in> set voltage_event_labels) (activeProtections buffer) = []) \<and>
   (21 \<le> length buffer \<and> buffer ! 12 = 0x01 \<and> buffer ! 13 = 0 \<and> buffer ! 14 = 0 \<and>
    buffer ! 15 = 0 \<and> buffer ! 16 = 0 \<and> buffer ! 17 = 0 \<and> buffer ! 19 = 0 \<and>
    buffer ! 20 = 0 \<longrightarrow>
      activeAlarms buffer = [''Cell High Voltage Alarm''] \<and>
      activeProtections buffer = [] \<and>
      map_of (decode_0x12 folder buffer) (folder @ ''.active_alarms'') =
        Some \<lparr>upd_value = String ''Cell High Voltage Alarm'', upd_unit = None,
              upd_role = ''text'', upd_ctype = ''string''\<rparr> \<and>
      map_of (decode_0x12 folder buffer) (folder @ ''.active_protections'') =
        Some \<lparr>upd_value = String '''', upd_unit = None,
              upd_role = ''text'', upd_ctype = ''string''\<rparr>) \<and>
   (7 \<le> length buffer \<and> buffer ! 3 = 0x05 \<and> buffer ! 4 = 0x00 \<and> buffer ! 5 = 0x00 \<and>
    buffer ! 6 = 0x00 \<longrightarrow>
      map_of (decode_0x12 folder buffer) (folder @ ''.cell_voltage_alarms'') =
        Some \<lparr>upd_value = String ''Low: 1, 3'', upd_unit = None,
              upd_role = ''text'', upd_ctype = ''string''\<rparr>) \<and>
   map_of (decode_0x12 folder buffer) (folder @ ''.cell_voltage_alarms'') =
     Some \<lparr>upd_value = String (low_high_string (lowVoltageCells buffer) (highVoltageCells buffer)),
           upd_unit = None, upd_role = ''text'', upd_ctype = ''string''\<rparr> \<and>
   map_of (decode_0x12 folder buffer) (folder @ ''.active_alarms'') =
     Some \<lparr>upd_value = String (join '', '' (activeAlarms buffer)),
           upd_unit = None, upd_role = ''text'', upd_ctype = ''string''\<rparr> \<and>
   map_of (decode_0x12 folder buffer) (folder @ ''.active_protections'') =
     Some \<lparr>upd_value = String (join '', '' (activeProtections buffer)),
           upd_unit = None, upd_role = ''text'', upd_ctype = ''string''\<rparr>"
proof -
  have c1: "5 \<le> length buffer \<and> i < 8 \<longrightarrow>
      (Suc i \<in> set (lowVoltageCells buffer) \<longleftrightarrow> bit (buffer ! 3) i)"
    using lowVoltageCells_bit [of buffer i] by simp
  have c2: "5 \<le> length buffer \<and> buffer ! 3 = 0x05 \<and> buffer ! 4 = 0x00 \<longrightarrow>
      lowVoltageCells buffer = [1, 3]"
    by (simp add: lowVoltageCells_eq filter_bit_5 filter_bit_0)
  have c3: "13 \<le> length buffer \<and> buffer ! 12 = 0x01 \<longrightarrow>
      voltage_event_alarms buffer = [''Cell High Voltage Alarm''] \<and>
      voltage_event_protections buffer = []"
    using voltage_event_1 [of buffer] by simp
  have c4: "js_at buffer 2 = Some 0x12 \<longrightarrow>
      decode folder buffer = Inr (decode_0x12 folder buffer)"
    by (simp add: decode_def)
  have c5: "length (decode_0x12 folder buffer) = 7"
    by (simp add: decode_0x12_def)
  have c6: "\<forall>e \<in> set (decode_0x12 folder buffer).
      upd_ctype (snd e) = ''string'' \<and> upd_role (snd e) = ''text'' \<and>
      (\<exists>s. upd_value (snd e) = String s)"
    using decode_0x12_text [of _ folder buffer] by blast
  have c7: "13 \<le> length buffer \<and> buffer ! 12 = 0x01 \<longrightarrow>
      activeAlarms buffer =
        ''Cell High Voltage Alarm'' #
        (temperature_event_alarms buffer @ environment_event_alarms buffer @
         current_event_alarms buffer @ second_current_event_alarms buffer @
         residual_capacity_alarms buffer @ equalization_state_alarms buffer) \<and>
      activeProtections buffer =
        temperature_event_protections buffer @ environment_event_protections buffer @
        current_event_protections buffer @ residual_capacity_protections buffer @
        equalization_state_protections buffer @ hard_fault_protections buffer \<and>
      filter (\<lambda>l. l \<in> set voltage_event_labels) (activeAlarms buffer) =
        [''Cell High Voltage Alarm''] \<and>
      filter (\<lambda>l. l \<in> set voltage_event_labels) (activeProtections buffer) = []"
    using activeAlarms_voltage_1 [of buffer] voltage_labels_of_active [of buffer] by blast
  have c8: "21 \<le> length buffer \<and> buffer ! 12 = 0x01 \<and> buffer ! 13 = 0 \<and> buffer ! 14 = 0 \<and>
    buffer ! 15 = 0 \<and> buffer ! 16 = 0 \<and> buffer ! 17 = 0 \<and> buffer ! 19 = 0 \<and>
    buffer ! 20 = 0 \<longrightarrow>
      activeAlarms buffer = [''Cell High Voltage Alarm''] \<and>
      activeProtections buffer = [] \<and>
      map_of (decode_0x12 folder buffer) (folder @ ''.active_alarms'') =
        Some \<lparr>upd_value = String ''Cell High Voltage Alarm'', upd_unit = None,
              upd_role = ''text'', upd_ctype = ''string''\<rparr> \<and>
      map_of (decode_0x12 folder buffer) (folder @ ''.active_protections'') =
        Some \<lparr>upd_value = String '''', upd_unit = None,
              upd_role = ''text'', upd_ctype = ''string''\<rparr>"
  proof (intro impI)
    assume a: "21 \<le> length buffer \<and> buffer ! 12 = 0x01 \<and> buffer ! 13 = 0 \<and>
      buffer ! 14 = 0 \<and> buffer ! 15 = 0 \<and> buffer ! 16 = 0 \<and> buffer ! 17 = 0 \<and>
      buffer ! 19 = 0 \<and> buffer ! 20 = 0"
    have al: "activeAlarms buffer = [''Cell High Voltage Alarm'']"
      and pr: "activeProtections buffer = []"
      using only_voltage_event_1 [of buffer] a by simp_all
    show "activeAlarms buffer = [''Cell High Voltage Alarm''] \<and>
      activeProtections buffer = [] \<and>
      map_of (decode_0x12 folder buffer) (folder @ ''.active_alarms'') =
        Some \<lparr>upd_value = String ''Cell High Voltage Alarm'', upd_unit = None,
              upd_role = ''text'', upd_ctype = ''string''\<rparr> \<and>
      map_of (decode_0x12 folder buffer) (folder @ ''.active_protections'') =
        Some \<lparr>upd_value = String '''', upd_unit = None,
              upd_role = ''text'', upd_ctype = ''string''\<rparr>"
      unfolding decode_0x12_records al pr by simp
  qed
  have c9: "7 \<le> length buffer \<and> buffer ! 3 = 0x05 \<and> buffer ! 4 = 0x00 \<and>
    buffer ! 5 = 0x00 \<and> buffer ! 6 = 0x00 \<longrightarrow>
      map_of (decode_0x12 folder buffer) (folder @ ''.cell_voltage_alarms'') =
        Some \<lparr>upd_value = String ''Low: 1, 3'', upd_unit = None,
              upd_role = ''text'', upd_ctype = ''string''\<rparr>"
  proof (intro impI)
    assume a: "7 \<le> length buffer \<and> buffer ! 3 = 0x05 \<and> buffer ! 4 = 0x00 \<and>
      buffer ! 5 = 0x00 \<and> buffer ! 6 = 0x00"
    have low: "lowVoltageCells buffer = [1, 3]"
      using a by (simp add: lowVoltageCells_eq filter_bit_5 filter_bit_0)
    have high: "highVoltageCells buffer = []"
      using a highVoltageCells_zero [of buffer] by simp
    show "map_of (decode_0x12 folder buffer) (folder @ ''.cell_voltage_alarms'') =
        Some \<lparr>upd_value = String ''Low: 1, 3'', upd_unit = None,
              upd_role = ''text'', upd_ctype = ''string''\<rparr>"
      unfolding decode_0x12_records low high low_1_3_string by simp
  qed
  show ?thesis
    using c1 c2 c3 c4 c5 c6 c7 c8 c9 decode_0x12_records [of folder buffer] by blast
qed

lemma sample_0x12_bytes:
  "length sample_0x12 = 23 \<and> sample_0x12 ! 3 = 0x05 \<and> sample_0x12 ! 4 = 0x00 \<and>
   sample_0x12 ! 5 = 0x00 \<and> sample_0x12 ! 6 = 0x00 \<and>
   sample_0x12 ! 12 = 0x01 \<and> sample_0x12 ! 13 = 0 \<and> sample_0x12 ! 14 = 0 \<and>
   sample_0x12 ! 15 = 0 \<and> sample_0x12 ! 16 = 0 \<and> sample_0x12 ! 17 = 0 \<and>
   sample_0x12 ! 19 = 0 \<and> sample_0x12 ! 20 = 0 \<and> js_at sample_0x12 2 = Some 0x12"
  by (simp add: sample_0x12_def js_at_def)

lemma sample_0x12_other_records:
  "join '', '' (systemStatus sample_0x12) = ''Charge''"
  "cell_list (balancingCells sample_0x12) = ''''"
  "low_high_string (lowTempCells sample_0x12) (highTempCells sample_0x12) = ''''"
  "join '', '' (FETEvent sample_0x12) = ''Discharge FET On, Charge FET On''"
  by (simp_all add: systemStatus_def balancingCells_def lowTempCells_def highTempCells_def
      FETEvent_def flag_def toInt32_def sample_0x12_def js_at_def cells_Some cell_list_def
      low_high_string_def)

theorem C6_alarm_decoder_witness:
  "5 \<le> length sample_0x12 \<and> (2 :: nat) < 8 \<and> bit (sample_0x12 ! 3) (2 :: nat) \<and>
   Suc 2 \<in> set (lowVoltageCells sample_0x12) \<and>
   sample_0x12 ! 3 = 0x05 \<and> sample_0x12 ! 4 = 0x00 \<and> lowVoltageCells sample_0x12 = [1, 3] \<and>
   13 \<le> length sample_0x12 \<and> sample_0x12 ! 12 = 0x01 \<and>
   voltage_event_alarms sample_0x12 = [''Cell High Voltage Alarm''] \<and>
   voltage_event_protections sample_0x12 = [] \<and>
   js_at sample_0x12 2 = Some 0x12 \<and>
   decode ''bms_1'' sample_0x12 = Inr (decode_0x12 ''bms_1'' sample_0x12) \<and>
   text_entry ''bms_1.cell_voltage_alarms'' ''Low: 1, 3'' \<in> set (decode_0x12 ''bms_1'' sample_0x12) \<and>
   upd_ctype (snd (text_entry ''bms_1.cell_voltage_alarms'' ''Low: 1, 3'')) = ''string'' \<and>
   activeAlarms sample_0x12 = [''Cell High Voltage Alarm''] \<and>
   activeProtections sample_0x12 = [] \<and>
   decode ''bms_1'' sample_0x12 =
     Inr [text_entry ''bms_1.system_status'' ''Charge'',
          text_entry ''bms_1.active_balancing_cells'' '''',
          text_entry ''bms_1.cell_temperature_alarms'' '''',
          text_entry ''bms_1.cell_voltage_alarms'' ''Low: 1, 3'',
          text_entry ''bms_1.FET_status'' ''Discharge FET On, Charge FET On'',
          text_entry ''bms_1.active_alarms'' ''Cell High Voltage Alarm'',
          text_entry ''bms_1.active_protections'' ''''] \<and>
   21 \<le> length sample_0x12 \<and> sample_0x12 ! 13 = 0 \<and> sample_0x12 ! 14 = 0 \<and>
   sample_0x12 ! 15 = 0 \<and> sample_0x12 ! 16 = 0 \<and> sample_0x12 ! 17 = 0 \<and>
   sample_0x12 ! 19 = 0 \<and> sample_0x12 ! 20 = 0 \<and>
   sample_0x12 ! 5 = 0x00 \<and> sample_0x12 ! 6 = 0x00 \<and>
   map_of (decode_0x12 ''bms_1'' sample_0x12) (''bms_1'' @ ''.active_alarms'') =
     Some \<lparr>upd_value = String ''Cell High Voltage Alarm'', upd_unit = None,
           upd_role = ''text'', upd_ctype = ''string''\<rparr> \<and>
   map_of (decode_0x12 ''bms_1'' sample_0x12) (''bms_1'' @ ''.active_protections'') =
     Some \<lparr>upd_value = String '''', upd_unit = None,
           upd_role = ''text'', upd_ctype = ''string''\<rparr> \<and>
   map_of (decode_0x12 ''bms_1'' sample_0x12) (''bms_1'' @ ''.cell_voltage_alarms'') =
     Some \<lparr>upd_value = String ''Low: 1, 3'', upd_unit = None,
           upd_role = ''text'', upd_ctype = ''string''\<rparr>"
proof -
  note inst = C6_alarm_decoder [of sample_0x12 2 "''bms_1''"]
  have p1: "5 \<le> length sample_0x12 \<and> (2 :: nat) < 8"
    and p2: "5 \<le> length sample_0x12 \<and> sample_0x12 ! 3 = 0x05 \<and> sample_0x12 ! 4 = 0x00"
    and p3: "13 \<le> length sample_0x12 \<and> sample_0x12 ! 12 = 0x01"
    and p4: "js_at sample_0x12 2 = Some 0x12"
    and p5: "21 \<le> length sample_0x12 \<and> sample_0x12 ! 12 = 0x01 \<and> sample_0x12 ! 13 = 0 \<and>
      sample_0x12 ! 14 = 0 \<and> sample_0x12 ! 15 = 0 \<and> sample_0x12 ! 16 = 0 \<and>
      sample_0x12 ! 17 = 0 \<and> sample_0x12 ! 19 = 0 \<and> sample_0x12 ! 20 = 0"
    and p6: "7 \<le> length sample_0x12 \<and> sample_0x12 ! 3 = 0x05 \<and> sample_0x12 ! 4 = 0x00 \<and>
      sample_0x12 ! 5 = 0x00 \<and> sample_0x12 ! 6 = 0x00"
    by (simp_all add: sample_0x12_bytes)
  from inst p5 have aa:
    "map_of (decode_0x12 ''bms_1'' sample_0x12) (''bms_1'' @ ''.active_alarms'') =
       Some \<lparr>upd_value = String ''Cell High Voltage Alarm'', upd_unit = None,
             upd_role = ''text'', upd_ctype = ''string''\<rparr>"
    and ap: "map_of (decode_0x12 ''bms_1'' sample_0x12) (''bms_1'' @ ''.active_protections'') =
       Some \<lparr>upd_value = String '''', upd_unit = None,
             upd_role = ''text'', upd_ctype = ''string''\<rparr>"
    by blast+
  from inst p6 have cva:
    "map_of (decode_0x12 ''bms_1'' sample_0x12) (''bms_1'' @ ''.cell_voltage_alarms'') =
       Some \<lparr>upd_value = String ''Low: 1, 3'', upd_unit = None,
             upd_role = ''text'', upd_ctype = ''string''\<rparr>"
    by blast
  from inst p1 have mem3: "Suc 2 \<in> set (lowVoltageCells sample_0x12) \<longleftrightarrow>
      bit (sample_0x12 ! 3) (2 :: nat)"
    by blast
  from inst p2 have low: "lowVoltageCells sample_0x12 = [1, 3]"
    by blast
  from inst p3 have va: "voltage_event_alarms sample_0x12 = [''Cell High Voltage Alarm'']"
    and vp: "voltage_event_protections sample_0x12 = []"
    by blast+
  from inst p4 have d: "decode ''bms_1'' sample_0x12 = Inr (decode_0x12 ''bms_1'' sample_0x12)"
    by blast
  from inst p5 have al: "activeAlarms sample_0x12 = [''Cell High Voltage Alarm'']"
    and pr: "activeProtections sample_0x12 = []"
    by blast+
  have b2: "bit (sample_0x12 ! 3) (2 :: nat)"
    by (simp add: sample_0x12_bytes)
  have high: "highVoltageCells sample_0x12 = []"
    by (simp add: highVoltageCells_def sample_0x12_def js_at_def cells_Some)
  have str: "low_high_string (lowVoltageCells sample_0x12) (highVoltageCells sample_0x12) =
      ''Low: 1, 3''"
    unfolding low high by (rule low_1_3_string)
  have dec: "decode_0x12 ''bms_1'' sample_0x12 =
     [text_entry ''bms_1.system_status'' ''Charge'',
      text_entry ''bms_1.active_balancing_cells'' '''',
      text_entry ''bms_1.cell_temperature_alarms'' '''',
      text_entry ''bms_1.cell_voltage_alarms'' ''Low: 1, 3'',
      text_entry ''bms_1.FET_status'' ''Discharge FET On, Charge FET On'',
      text_entry ''bms_1.active_alarms'' ''Cell High Voltage Alarm'',
      text_entry ''bms_1.active_protections'' '''']"
    unfolding decode_0x12_def str al pr sample_0x12_other_records by simp
  have mem: "text_entry ''bms_1.cell_voltage_alarms'' ''Low: 1, 3''
      \<in> set (decode_0x12 ''bms_1'' sample_0x12)"
    unfolding dec by simp
  have ty: "upd_ctype (snd (text_entry ''bms_1.cell_voltage_alarms'' ''Low: 1, 3'')) = ''string''"
    by (simp add: text_entry_def)
  have full: "decode ''bms_1'' sample_0x12 =
     Inr [text_entry ''bms_1.system_status'' ''Charge'',
          text_entry ''bms_1.active_balancing_cells'' '''',
          text_entry ''bms_1.cell_temperature_alarms'' '''',
          text_entry ''bms_1.cell_voltage_alarms'' ''Low: 1, 3'',
          text_entry ''bms_1.FET_status'' ''Discharge FET On, Charge FET On'',
          text_entry ''bms_1.active_alarms'' ''Cell High Voltage Alarm'',
          text_entry ''bms_1.active_protections'' '''']"
    unfolding d dec ..
  from p1 p2 p3 p4 p5 p6 b2 mem3 low va vp d mem ty al pr full aa ap cva show ?thesis
    by blast
qed

subsection \<open>The update gate\<close>

lemma ensureObjectExists_fields:
  "lastUpdate (ensureObjectExists host_ok st ident ob) = lastUpdate st \<and>
   isShuttingDown (ensureObjectExists host_ok st ident ob) = isShuttingDown st \<and>
   states (ensureObjectExists host_ok st ident ob) = states st \<and>
   lastDataReceived (ensureObjectExists host_ok st ident ob) = lastDataReceived st \<and>
   updateInterval (ensureObjectExists host_ok st ident ob) = updateInterval st"
  by (simp add: ensureObjectExists_def)

lemma publish_entry_suppressed:
  "\<not> shouldEmit st key now \<Longrightarrow> publish_entry host_ok now st (key, u) = st"
  by (simp add: publish_entry_def)

lemma publish_entry_lastUpdate:
  "lastUpdate (publish_entry host_ok now st (key, u)) =
     (if shouldEmit st key now then (lastUpdate st)(key \<mapsto> now) else lastUpdate st)"
  by (simp add: publish_entry_def Let_def ensureObjectExists_fields)

lemma publish_entry_states:
  "states (publish_entry host_ok now st (key, u)) =
     (if shouldEmit st key now \<and> \<not> isShuttingDown st
      then states st @ [(key, upd_value u)] else states st)"
  by (simp add: publish_entry_def Let_def ensureObjectExists_fields)

lemma publish_entry_interval:
  "updateInterval (publish_entry host_ok now st (key, u)) = updateInterval st"
  by (simp add: publish_entry_def Let_def ensureObjectExists_fields)

lemma shouldEmit_iff:
  assumes "lastUpdate st key \<noteq> Some 0"
  shows "shouldEmit st key now \<longleftrightarrow>
         lastUpdate st key = None \<or>
         (\<exists>t. lastUpdate st key = Some t \<and> updateInterval st \<le> now - t)"
  using assms by (auto simp add: shouldEmit_def split: option.splits)

text \<open>
  Claim C7, as amended. For a key whose recorded timestamp is not 0 (a timestamp is a
  reading of the wall clock in milliseconds since 1970), the gate emits exactly when no
  timestamp is recorded for the key or now - lastTimestamp >= minInterval. It records now
  as the key's timestamp exactly when it emits, and leaves the whole state unchanged when
  it suppresses; the value is written to the state store when the gate emits and the
  adapter is not shutting down. In particular, with minInterval 5000 ms, for any key first
  emitted at a time t other than 0 and offered again at t + 100 ms, the second emission is
  suppressed, and a third at t + 5001 ms is accepted; the first emission of a key is never
  blocked.
\<close>

theorem C7_update_gate:
  "(lastUpdate st key \<noteq> Some 0 \<longrightarrow>
      (shouldEmit st key now \<longleftrightarrow>
         lastUpdate st key = None \<or>
         (\<exists>t. lastUpdate st key = Some t \<and> updateInterval st \<le> now - t))) \<and>
   lastUpdate (publish_entry host_ok now st (key, u)) =
     (if shouldEmit st key now then (lastUpdate st)(key \<mapsto> now) else lastUpdate st) \<and>
   states (publish_entry host_ok now st (key, u)) =
     (if shouldEmit st key now \<and> \<not> isShuttingDown st
      then states st @ [(key, upd_value u)] else states st) \<and>
   (\<not> shouldEmit st key now \<longrightarrow> publish_entry host_ok now st (key, u) = st) \<and>
   (lastUpdate st key = None \<longrightarrow> shouldEmit st key now) \<and>
   (lastUpdate st key = None \<and> updateInterval st = 5000 \<and> t \<noteq> 0 \<longrightarrow>
      shouldEmit st key t \<and>
      \<not> shouldEmit (publish_entry host_ok t st (key, u)) key (t + 100) \<and>
      publish_entry host_ok (t + 100) (publish_entry host_ok t st (key, u)) (key, u) =
        publish_entry host_ok t st (key, u) \<and>
      shouldEmit (publish_entry host_ok t st (key, u)) key (t + 5001))"
proof (intro conjI impI)
  assume "lastUpdate st key \<noteq> Some 0"
  then show "shouldEmit st key now \<longleftrightarrow>
         lastUpdate st key = None \<or>
         (\<exists>t. lastUpdate st key = Some t \<and> updateInterval st \<le> now - t)"
    by (rule shouldEmit_iff)
next
  show "lastUpdate (publish_entry host_ok now st (key, u)) =
     (if shouldEmit st key now then (lastUpdate st)(key \<mapsto> now) else lastUpdate st)"
    by (rule publish_entry_lastUpdate)
next
  show "states (publish_entry host_ok now st (key, u)) =
     (if shouldEmit st key now \<and> \<not> isShuttingDown st
      then states st @ [(key, upd_value u)] else states st)"
    by (rule publish_entry_states)
next
  assume "\<not> shouldEmit st key now"
  then show "publish_entry host_ok now st (key, u) = st"
    by (rule publish_entry_suppressed)
next
  assume "lastUpdate st key = None"
  then show "shouldEmit st key now"
    by (simp add: shouldEmit_def)
next
  assume a: "lastUpdate st key = None \<and> updateInterval st = 5000 \<and> t \<noteq> 0"
  then show first: "shouldEmit st key t"
    by (simp add: shouldEmit_def)
  let ?st1 = "publish_entry host_ok t st (key, u)"
  have l1: "lastUpdate ?st1 key = Some t"
    using first by (simp add: publish_entry_lastUpdate)
  have i1: "updateInterval ?st1 = 5000"
    using a by (simp add: publish_entry_interval)
  show second: "\<not> shouldEmit ?st1 key (t + 100)"
    using a by (simp add: shouldEmit_def l1 i1)
  then show "publish_entry host_ok (t + 100) ?st1 (key, u) = ?st1"
    by (rule publish_entry_suppressed)
  show "shouldEmit ?st1 key (t + 5001)"
    by (simp add: shouldEmit_def l1 i1)
qed

theorem C7_update_gate_witness:
  "lastUpdate fresh ''bms_0.soc'' \<noteq> Some 0 \<and> lastUpdate fresh ''bms_0.soc'' = None \<and>
   updateInterval fresh = 5000 \<and> (1700000000000 :: int) \<noteq> 0 \<and>
   shouldEmit fresh ''bms_0.soc'' 1700000000000 \<and>
   \<not> shouldEmit (publish_entry (\<lambda>_. True) 1700000000000 fresh (''bms_0.soc'', soc))
        ''bms_0.soc'' (1700000000000 + 100) \<and>
   shouldEmit (publish_entry (\<lambda>_. True) 1700000000000 fresh (''bms_0.soc'', soc))
        ''bms_0.soc'' (1700000000000 + 5001)"
  using C7_update_gate [of fresh "''bms_0.soc''" 1700000000000 "\<lambda>_. True" soc 1700000000000]
  by (simp add: fresh_def)

text \<open>
  The claim as stated fails at t = 0: the timestamp 0 is recorded, and the test
  \<^verbatim>\<open>!this.lastUpdate[key]\<close> reads it as no timestamp, so the emission at t = 100 ms is
  not suppressed.
\<close>

theorem C7_time_zero_counterexample:
  "updateInterval fresh = 5000 \<and> shouldEmit fresh ''bms_0.soc'' 0 \<and>
   lastUpdate (publish_entry (\<lambda>_. True) 0 fresh (''bms_0.soc'', soc)) ''bms_0.soc'' = Some 0 \<and>
   \<not> (5000 \<le> (100 :: int) - 0) \<and>
   shouldEmit (publish_entry (\<lambda>_. True) 0 fresh (''bms_0.soc'', soc)) ''bms_0.soc'' 100"
  by (simp add: fresh_def shouldEmit_def publish_entry_def ensureObjectExists_def Let_def)

subsection \<open>Processing a frame\<close>

lemma confined_refl: "confined p st st"
  by (simp add: confined_def)

lemma confined_trans:
  assumes "confined p st st'" and "confined p st' st''"
  shows "confined p st st''"
proof -
  obtain new ids obs where 1: "states st' = states st @ new" "\<forall>e \<in> set new. prefix p (fst e)"
    "knownIds st' = knownIds st @ ids" "\<forall>i \<in> set ids. prefix p i"
    "objects st' = objects st @ obs" "\<forall>ob \<in> set obs. prefix p (fst ob)"
    using assms(1) unfolding confined_def by blast
  obtain new' ids' obs' where 2: "states st'' = states st' @ new'" "\<forall>e \<in> set new'. prefix p (fst e)"
    "knownIds st'' = knownIds st' @ ids'" "\<forall>i \<in> set ids'. prefix p i"
    "objects st'' = objects st' @ obs'" "\<forall>ob \<in> set obs'. prefix p (fst ob)"
    using assms(2) unfolding confined_def by blast
  have "states st'' = states st @ (new @ new') \<and> (\<forall>e \<in> set (new @ new'). prefix p (fst e))"
    using 1 2 by auto
  moreover have "knownIds st'' = knownIds st @ (ids @ ids') \<and> (\<forall>i \<in> set (ids @ ids'). prefix p i)"
    using 1 2 by auto
  moreover have "objects st'' = objects st @ (obs @ obs') \<and>
      (\<forall>ob \<in> set (obs @ obs'). prefix p (fst ob))"
    using 1 2 by auto
  moreover have "lastDataReceived st'' = lastDataReceived st"
    and "isShuttingDown st'' = isShuttingDown st" and "updateInterval st'' = updateInterval st"
    and "\<forall>k. \<not> prefix p k \<longrightarrow> lastUpdate st'' k = lastUpdate st k"
    using assms unfolding confined_def by simp_all
  ultimately show ?thesis
    unfolding confined_def by blast
qed

lemma confined_ensureObjectExists:
  assumes "prefix p ident"
  shows "confined p st (ensureObjectExists host_ok st ident ob)"
  using assms by (simp add: confined_def ensureObjectExists_def)

lemma confined_write_state:
  assumes "prefix p key"
  shows "confined p st (st\<lparr>states := states st @ [(key, v)]\<rparr>)"
  using assms by (simp add: confined_def)

lemma confined_stamp:
  assumes "prefix p key"
  shows "confined p st (st\<lparr>lastUpdate := (lastUpdate st)(key \<mapsto> now)\<rparr>)"
  using assms by (auto simp add: confined_def)

lemma confined_publish_entry:
  assumes "prefix p (fst entry)"
  shows "confined p st (publish_entry host_ok now st entry)"
proof (cases "shouldEmit st (fst entry) now")
  case False
  then show ?thesis
    by (simp add: publish_entry_def Let_def confined_refl)
next
  case True
  define st1 where "st1 = st\<lparr>lastUpdate := (lastUpdate st)(fst entry \<mapsto> now)\<rparr>"
  define st2 where "st2 = ensureObjectExists host_ok st1 (fst entry)
      (StateObject (fst entry) (upd_ctype (snd entry)) (upd_role (snd entry)) (upd_unit (snd entry)))"
  define st3 where "st3 = st2\<lparr>states := states st2 @ [(fst entry, upd_value (snd entry))]\<rparr>"
  have c1: "confined p st st1"
    unfolding st1_def using assms by (rule confined_stamp)
  have c2: "confined p st1 st2"
    unfolding st2_def using assms by (rule confined_ensureObjectExists)
  have c3: "confined p st2 st3"
    unfolding st3_def using assms by (rule confined_write_state)
  have c12: "confined p st st2"
    using c1 c2 by (rule confined_trans)
  have c13: "confined p st st3"
    using c12 c3 by (rule confined_trans)
  have "publish_entry host_ok now st entry = (if \<not> isShuttingDown st2 then st3 else st2)"
    using True by (simp add: publish_entry_def Let_def st1_def st2_def st3_def)
  then show ?thesis
    using c12 c13 by simp
qed

lemma confined_publish:
  assumes "\<forall>e \<in> set updates. prefix p (fst e)"
  shows "confined p st (publish host_ok now st updates)"
  using assms
proof (induction updates arbitrary: st)
  case Nil
  show ?case
    by (simp add: publish_def confined_refl)
next
  case (Cons e updates)
  have 1: "confined p st (publish_entry host_ok now st e)"
    using Cons.prems by (intro confined_publish_entry) simp
  have 2: "confined p (publish_entry host_ok now st e)
             (publish host_ok now (publish_entry host_ok now st e) updates)"
    using Cons.prems by (intro Cons.IH) simp
  have "publish host_ok now st (e # updates) =
        publish host_ok now (publish_entry host_ok now st e) updates"
    by (simp add: publish_def)
  then show ?case
    using confined_trans [OF 1 2] by simp
qed

lemma collect_set: "collect rs = Inr xs \<Longrightarrow> x \<in> set xs \<Longrightarrow> Inr x \<in> set rs"
proof (induction rs arbitrary: xs rule: collect.induct)
  case 1
  then show ?case by simp
next
  case (2 e rs)
  then show ?case by simp
next
  case (3 y rs)
  then show ?case
    by (auto split: sum.splits)
qed

lemma num_entry_prefix:
  "num_entry (folder @ name) rd scale unit role = Inr e \<Longrightarrow> prefix folder (fst e)"
  by (auto simp add: num_entry_def split: sum.splits)

lemma decode_0x24_keys:
  assumes "decode_0x24 folder buffer = Inr updates" and "e \<in> set updates"
  shows "prefix folder (fst e)"
proof -
  have "Inr e \<in> set
     [num_entry (folder @ ''.pack_voltage'') (readUInt16BE buffer 3)
        (\<lambda>raw. js_div raw 100) ''V'' ''value.voltage'',
      num_entry (folder @ ''.current'') (readInt16BE buffer 5)
        (\<lambda>raw. js_div raw 100) ''A'' ''value.current'',
      num_entry (folder @ ''.remaining_capacity'') (readUInt16BE buffer 7)
        (\<lambda>raw. js_div raw 100) ''Ah'' ''value'',
      num_entry (folder @ ''.total_capacity'') (readUInt16BE buffer 9)
        (\<lambda>raw. js_div raw 100) ''AH'' ''value'',
      num_entry (folder @ ''.total_discharge_capacity'') (readUInt16BE buffer 11)
        (\<lambda>raw. js_div raw (js_lit (1 / 10))) ''AH'' ''value'',
      num_entry (folder @ ''.soc'') (readUInt16BE buffer 13)
        (\<lambda>raw. js_div raw 10) ''%'' ''value'',
      num_entry (folder @ ''.soh'') (readUInt16BE buffer 15)
        (\<lambda>raw. js_div raw 10) ''%'' ''value'',
      num_entry (folder @ ''.cycle_count'') (readUInt16BE buffer 17)
        (\<lambda>raw. raw) ''cycles'' ''value'',
      num_entry (folder @ ''.average_cell_voltage'') (readUInt16BE buffer 19)
        (\<lambda>raw. js_div raw 1000) ''V'' ''value.voltage'',
      num_entry (folder @ ''.average_cell_temp'') (readInt16BE buffer 21)
        celsius degC ''value.temperature'',
      num_entry (folder @ ''.max_cell_voltage'') (readUInt16BE buffer 23)
        (\<lambda>raw. js_div raw 1000) ''V'' ''value.voltage'',
      num_entry (folder @ ''.min_cell_voltage'') (readUInt16BE buffer 25)
        (\<lambda>raw. js_div raw 1000) ''V'' ''value.voltage'',
      num_entry (folder @ ''.max_cell_temp'') (readUInt16BE buffer 27)
        celsius degC ''value.temperature'',
      num_entry (folder @ ''.min_cell_temp'') (readUInt16BE buffer 29)
        celsius degC ''value.temperature'',
      num_entry (folder @ ''.maxdiscurt'') (readUInt16BE buffer 33)
        (\<lambda>raw. js_div raw 1) ''A'' ''value.current'',
      num_entry (folder @ ''.maxchgcurt'') (readUInt16BE buffer 35)
        (\<lambda>raw. js_div raw 1) ''A'' ''value.current'']"
    using assms unfolding decode_0x24_def by (rule collect_set)
  then show ?thesis
    unfolding set_simps insert_iff empty_iff
    by (elim disjE) (erule num_entry_prefix [OF sym] FalseE)+
qed

lemma cell_voltage_prefix:
  "cell_voltage folder buffer name offset = Inr e \<Longrightarrow> prefix folder (fst e)"
  unfolding cell_voltage_def by (rule num_entry_prefix)

lemma temperature_prefix:
  "temperature folder buffer name offset = Inr e \<Longrightarrow> prefix folder (fst e)"
  unfolding temperature_def by (rule num_entry_prefix)

lemma decode_0x34_keys:
  assumes "decode_0x34 folder buffer = Inr updates" and "e \<in> set updates"
  shows "prefix folder (fst e)"
proof -
  have "Inr e \<in> set
     [cell_voltage folder buffer ''.cell_1_voltage'' 3,
      cell_voltage folder buffer ''.cell_2_voltage'' 5,
      cell_voltage folder buffer ''.cell_3_voltage'' 7,
      cell_voltage folder buffer ''.cell_4_voltage'' 9,
      cell_voltage folder buffer ''.cell_5_voltage'' 11,
      cell_voltage folder buffer ''.cell_6_voltage'' 13,
      cell_voltage folder buffer ''.cell_7_voltage'' 15,
      cell_voltage folder buffer ''.cell_8_voltage'' 17,
      cell_voltage folder buffer ''.cell_9_voltage'' 19,
      cell_voltage folder buffer ''.cell_10_voltage'' 21,
      cell_voltage folder buffer ''.cell_11_voltage'' 23,
      cell_voltage folder buffer ''.cell_12_voltage'' 25,
      cell_voltage folder buffer ''.cell_13_voltage'' 27,
      cell_voltage folder buffer ''.cell_14_voltage'' 29,
      cell_voltage folder buffer ''.cell_15_voltage'' 31,
      cell_voltage folder buffer ''.cell_16_voltage'' 33,
      temperature folder buffer ''.cell_temp_1'' 35,
      temperature folder buffer ''.cell_temp_2'' 37,
      temperature folder buffer ''.cell_temp_3'' 39,
      temperature folder buffer ''.cell_temp_4'' 41,
      temperature folder buffer ''.case_temp'' 51,
      temperature folder buffer ''.power_temp'' 53]"
    using assms unfolding decode_0x34_def by (rule collect_set)
  then show ?thesis
    unfolding set_simps insert_iff empty_iff
    by (elim disjE)
      (erule cell_voltage_prefix [OF sym] temperature_prefix [OF sym] FalseE)+
qed

lemma decode_0x12_keys:
  assumes "e \<in> set (decode_0x12 folder buffer)"
  shows "prefix folder (fst e)"
  using assms by (auto simp add: decode_0x12_def text_entry_def)

lemma decode_keys:
  assumes "decode folder buffer = Inr updates" and "e \<in> set updates"
  shows "prefix folder (fst e)"
proof -
  consider (a) "js_at buffer 2 = Some 0x24"
    | (b) "js_at buffer 2 \<noteq> Some 0x24" "js_at buffer 2 = Some 0x34"
    | (c) "js_at buffer 2 \<noteq> Some 0x24" "js_at buffer 2 \<noteq> Some 0x34" "js_at buffer 2 = Some 0x12"
    | (d) "js_at buffer 2 \<noteq> Some 0x24" "js_at buffer 2 \<noteq> Some 0x34" "js_at buffer 2 \<noteq> Some 0x12"
    by blast
  then show ?thesis
  proof cases
    case a
    then have "decode_0x24 folder buffer = Inr updates"
      using assms(1) by (simp add: decode_def)
    then show ?thesis
      using assms(2) by (rule decode_0x24_keys)
  next
    case b
    then have "decode_0x34 folder buffer = Inr updates"
      using assms(1) by (simp add: decode_def)
    then show ?thesis
      using assms(2) by (rule decode_0x34_keys)
  next
    case c
    then have "updates = decode_0x12 folder buffer"
      using assms(1) by (simp add: decode_def)
    then show ?thesis
      using assms(2) decode_0x12_keys by simp
  next
    case d
    then have "updates = []"
      using assms(1) by (simp add: decode_def)
    then show ?thesis
      using assms(2) by simp
  qed
qed

lemma processPacket_other_device:
  assumes "bmsIndex buffer \<noteq> Some 0"
  shows "confined (bmsFolder buffer) st (fst (processPacket host_ok t0 t1 st buffer))"
proof -
  define st2 where "st2 = ensureObjectExists host_ok st (bmsFolder buffer)
      (Channel (''bms '' @ show_index (bmsIndex buffer)))"
  have c2: "confined (bmsFolder buffer) st st2"
    unfolding st2_def by (rule confined_ensureObjectExists) simp
  show ?thesis
  proof (cases "decode (bmsFolder buffer) buffer")
    case (Inl e)
    then have "fst (processPacket host_ok t0 t1 st buffer) = st2"
      using assms by (simp add: processPacket_def st2_def)
    then show ?thesis
      using c2 by simp
  next
    case (Inr updates)
    then have "\<forall>e \<in> set updates. prefix (bmsFolder buffer) (fst e)"
      using decode_keys by blast
    then have "confined (bmsFolder buffer) st2 (publish host_ok t1 st2 updates)"
      by (rule confined_publish)
    moreover have "fst (processPacket host_ok t0 t1 st buffer) = publish host_ok t1 st2 updates"
      using assms Inr by (simp add: processPacket_def st2_def)
    ultimately show ?thesis
      using c2 confined_trans by metis
  qed
qed

lemma processPacket_master:
  assumes "bmsIndex buffer = Some 0"
  shows "confined (bmsFolder buffer)
           (st\<lparr>lastDataReceived := t0,
                states := states st @ [(''info.connection'', Boolean True)]\<rparr>)
           (fst (processPacket host_ok t0 t1 st buffer))"
proof -
  define st1 where "st1 = st\<lparr>lastDataReceived := t0,
                states := states st @ [(''info.connection'', Boolean True)]\<rparr>"
  define st2 where "st2 = ensureObjectExists host_ok st1 (bmsFolder buffer)
      (Channel (''bms '' @ show_index (bmsIndex buffer)))"
  have c2: "confined (bmsFolder buffer) st1 st2"
    unfolding st2_def by (rule confined_ensureObjectExists) simp
  have "confined (bmsFolder buffer) st1 (fst (processPacket host_ok t0 t1 st buffer))"
  proof (cases "decode (bmsFolder buffer) buffer")
    case (Inl e)
    then have "fst (processPacket host_ok t0 t1 st buffer) = st2"
      using assms by (simp add: processPacket_def st2_def st1_def)
    then show ?thesis
      using c2 by simp
  next
    case (Inr updates)
    then have "\<forall>e \<in> set updates. prefix (bmsFolder buffer) (fst e)"
      using decode_keys by blast
    then have "confined (bmsFolder buffer) st2 (publish host_ok t1 st2 updates)"
      by (rule confined_publish)
    moreover have "fst (processPacket host_ok t0 t1 st buffer) = publish host_ok t1 st2 updates"
      using assms Inr by (simp add: processPacket_def st2_def st1_def)
    ultimately show ?thesis
      using c2 confined_trans by metis
  qed
  then show ?thesis
    by (simp add: st1_def)
qed

lemma frame_ok_address:
  assumes "frame_ok frame"
  shows "bmsIndex frame = Some (uint (frame ! 0) - 1) \<and>
         0 \<le> uint (frame ! 0) - 1 \<and> uint (frame ! 0) - 1 \<le> 15"
proof -
  have valid: "isValidHeader frame"
    using assms by (simp add: frame_ok_def)
  then have len: "3 \<le> length frame"
    by (rule isValidHeader_length)
  have "0x01 \<le> frame ! 0 \<and> frame ! 0 \<le> 0x10"
    using valid by (simp add: isValidHeader_iff [OF len])
  then have "1 \<le> uint (frame ! 0) \<and> uint (frame ! 0) \<le> 16"
    by (simp add: word_le_def)
  moreover have "bmsIndex frame = Some (uint (frame ! 0) - 1)"
    using len by (simp add: bmsIndex_def js_at_header)
  ultimately show ?thesis
    by simp
qed

lemma sample_0x24_ok: "frame_ok sample_0x24"
  using sample_0x24_crc by (simp add: frame_ok_def sample_0x24_header)

lemma sample_0x24_dev16_ok: "frame_ok sample_0x24_dev16"
proof -
  have hdr: "isValidHeader sample_0x24_dev16 \<and> length sample_0x24_dev16 = 41 \<and>
      getExpectedLength sample_0x24_dev16 = 41"
    by (simp add: sample_0x24_dev16_def isValidHeader_def getExpectedLength_def js_at_def
        address_ok_def)
  have "calculateModbusCRC (take 39 sample_0x24_dev16) = 0x5DA4"
    by (simp add: sample_0x24_dev16_def calculateModbusCRC_def crc_byte_def funpow8 crc_shift_def)
  then have "validateCRC sample_0x24_dev16 41"
    using validateCRC_iff [of 41 sample_0x24_dev16] by (simp add: sample_0x24_dev16_def)
  then show ?thesis
    using hdr by (simp add: frame_ok_def)
qed

lemma bmsFolder_15: "bmsIndex frame = Some 15 \<Longrightarrow> bmsFolder frame = ''bms_15''"
  by (simp add: bmsFolder_def show_index_def show_int_def show_nat.simps digit_char_def)

lemma publish_Nil: "publish host_ok now st [] = st"
  by (simp add: publish_def)

lemma publish_Cons:
  "publish host_ok now st (e # updates) =
     publish host_ok now (publish_entry host_ok now st e) updates"
  by (simp add: publish_def)

lemma publish_entry_kept:
  "isShuttingDown (publish_entry host_ok now st e) = isShuttingDown st"
  "updateInterval (publish_entry host_ok now st e) = updateInterval st"
  "lastDataReceived (publish_entry host_ok now st e) = lastDataReceived st"
  by (simp_all add: publish_entry_def Let_def ensureObjectExists_def)

lemma publish_entry_stamp:
  "lastUpdate (publish_entry host_ok now st e) =
     (if shouldEmit st (fst e) now then (lastUpdate st)(fst e \<mapsto> now) else lastUpdate st)"
  by (simp add: publish_entry_def Let_def ensureObjectExists_def)

lemma publish_entry_written:
  "states (publish_entry host_ok now st e) =
     states st @ (if shouldEmit st (fst e) now \<and> \<not> isShuttingDown st then [state_value e] else [])"
  by (simp add: publish_entry_def Let_def ensureObjectExists_def state_value_def)

lemma publish_entry_knownIds:
  "knownIds (publish_entry host_ok now st e) =
     knownIds st @
     (if shouldEmit st (fst e) now \<and> \<not> isShuttingDown st \<and> unknown host_ok st (fst e)
      then [fst e] else [])"
  by (simp add: publish_entry_def Let_def ensureObjectExists_def unknown_def)

lemma publish_entry_objects:
  "objects (publish_entry host_ok now st e) =
     objects st @
     (if shouldEmit st (fst e) now \<and> \<not> isShuttingDown st \<and> unknown host_ok st (fst e)
      then [state_object e] else [])"
  by (simp add: publish_entry_def Let_def ensureObjectExists_def unknown_def state_object_def)

lemma shouldEmit_cong:
  assumes "lastUpdate st' key = lastUpdate st key" and "updateInterval st' = updateInterval st"
  shows "shouldEmit st' key now = shouldEmit st key now"
  unfolding shouldEmit_def assms ..

lemma shouldEmit_publish_entry:
  assumes "key \<noteq> fst e"
  shows "shouldEmit (publish_entry host_ok now st e) key now = shouldEmit st key now"
  using assms by (intro shouldEmit_cong) (simp_all add: publish_entry_stamp publish_entry_kept)

lemma unknown_publish_entry:
  assumes "key \<noteq> fst e"
  shows "unknown host_ok (publish_entry host_ok now st e) key = unknown host_ok st key"
  using assms by (simp add: unknown_def publish_entry_knownIds)

lemma passing_Nil: "passing st now [] = []"
  by (simp add: passing_def)

lemma passing_Cons:
  "passing st now (e # updates) =
     (if shouldEmit st (fst e) now then e # passing st now updates else passing st now updates)"
  by (simp add: passing_def)

lemma passing_subset: "set (passing st now updates) \<subseteq> set updates"
  by (simp add: passing_def)

lemma passing_publish_entry:
  assumes "fst e \<notin> fst ` set updates"
  shows "passing (publish_entry host_ok now st e) now updates = passing st now updates"
  unfolding passing_def
proof (rule filter_cong [OF refl])
  fix x
  assume "x \<in> set updates"
  then have "fst x \<in> fst ` set updates"
    by (rule imageI)
  then have "fst x \<noteq> fst e"
    using assms by metis
  then show "shouldEmit (publish_entry host_ok now st e) (fst x) now = shouldEmit st (fst x) now"
    by (rule shouldEmit_publish_entry)
qed

lemma unknown_passing_publish_entry:
  assumes "fst e \<notin> fst ` set updates"
  shows "filter (\<lambda>x. unknown host_ok (publish_entry host_ok now st e) (fst x))
           (passing st now updates) =
         filter (\<lambda>x. unknown host_ok st (fst x)) (passing st now updates)"
proof (rule filter_cong [OF refl])
  fix x
  assume "x \<in> set (passing st now updates)"
  then have "x \<in> set updates"
    using passing_subset by blast
  then have "fst x \<in> fst ` set updates"
    by (rule imageI)
  then have "fst x \<noteq> fst e"
    using assms by metis
  then show "unknown host_ok (publish_entry host_ok now st e) (fst x) =
      unknown host_ok st (fst x)"
    by (rule unknown_publish_entry)
qed

lemma publish_kept:
  "isShuttingDown (publish host_ok now st updates) = isShuttingDown st \<and>
   updateInterval (publish host_ok now st updates) = updateInterval st \<and>
   lastDataReceived (publish host_ok now st updates) = lastDataReceived st"
  by (induction updates arbitrary: st) (simp_all add: publish_Nil publish_Cons publish_entry_kept)

lemma publish_written:
  assumes "distinct (map fst updates)"
  shows "states (publish host_ok now st updates) =
     states st @ (if isShuttingDown st then [] else map state_value (passing st now updates))"
  using assms
proof (induction updates arbitrary: st)
  case Nil
  show ?case
    by (simp add: publish_Nil passing_Nil)
next
  case (Cons e updates)
  have n: "fst e \<notin> fst ` set updates" and d: "distinct (map fst updates)"
    using Cons.prems by simp_all
  have "states (publish host_ok now st (e # updates)) =
      states (publish_entry host_ok now st e) @
      (if isShuttingDown st then [] else map state_value (passing st now updates))"
    unfolding publish_Cons Cons.IH [OF d] passing_publish_entry [OF n] publish_entry_kept ..
  then show ?case
    by (simp add: publish_entry_written passing_Cons)
qed

lemma publish_stamped:
  assumes "distinct (map fst updates)"
  shows "lastUpdate (publish host_ok now st updates) k =
     (if k \<in> fst ` set (passing st now updates) then Some now else lastUpdate st k)"
  using assms
proof (induction updates arbitrary: st)
  case Nil
  show ?case
    by (simp add: publish_Nil passing_Nil)
next
  case (Cons e updates)
  have n: "fst e \<notin> fst ` set updates" and d: "distinct (map fst updates)"
    using Cons.prems by simp_all
  have "lastUpdate (publish host_ok now st (e # updates)) k =
      (if k \<in> fst ` set (passing st now updates) then Some now
       else lastUpdate (publish_entry host_ok now st e) k)"
    unfolding publish_Cons Cons.IH [OF d] passing_publish_entry [OF n] ..
  then show ?case
    by (simp add: publish_entry_stamp passing_Cons)
qed

lemma publish_knownIds:
  assumes "distinct (map fst updates)"
  shows "knownIds (publish host_ok now st updates) =
     knownIds st @
     (if isShuttingDown st then []
      else map fst (filter (\<lambda>x. unknown host_ok st (fst x)) (passing st now updates)))"
  using assms
proof (induction updates arbitrary: st)
  case Nil
  show ?case
    by (simp add: publish_Nil passing_Nil)
next
  case (Cons e updates)
  have n: "fst e \<notin> fst ` set updates" and d: "distinct (map fst updates)"
    using Cons.prems by simp_all
  have "knownIds (publish host_ok now st (e # updates)) =
      knownIds (publish_entry host_ok now st e) @
      (if isShuttingDown st then []
       else map fst (filter (\<lambda>x. unknown host_ok st (fst x)) (passing st now updates)))"
    unfolding publish_Cons Cons.IH [OF d] passing_publish_entry [OF n] publish_entry_kept
      unknown_passing_publish_entry [OF n] ..
  then show ?case
    by (simp add: publish_entry_knownIds passing_Cons)
qed

lemma publish_objects:
  assumes "distinct (map fst updates)"
  shows "objects (publish host_ok now st updates) =
     objects st @
     (if isShuttingDown st then []
      else map state_object (filter (\<lambda>x. unknown host_ok st (fst x)) (passing st now updates)))"
  using assms
proof (induction updates arbitrary: st)
  case Nil
  show ?case
    by (simp add: publish_Nil passing_Nil)
next
  case (Cons e updates)
  have n: "fst e \<notin> fst ` set updates" and d: "distinct (map fst updates)"
    using Cons.prems by simp_all
  have "objects (publish host_ok now st (e # updates)) =
      objects (publish_entry host_ok now st e) @
      (if isShuttingDown st then []
       else map state_object (filter (\<lambda>x. unknown host_ok st (fst x)) (passing st now updates)))"
    unfolding publish_Cons Cons.IH [OF d] passing_publish_entry [OF n] publish_entry_kept
      unknown_passing_publish_entry [OF n] ..
  then show ?case
    by (simp add: publish_entry_objects passing_Cons)
qed

lemma record_names_distinct:
  "distinct record_names_0x24" "distinct record_names_0x34" "distinct record_names_0x12"
  by (simp_all add: record_names_0x24_def record_names_0x34_def record_names_0x12_def)

lemma record_names_nonempty:
  "[] \<notin> set record_names_0x24" "[] \<notin> set record_names_0x34" "[] \<notin> set record_names_0x12"
  by (simp_all add: record_names_0x24_def record_names_0x34_def record_names_0x12_def)

lemma decode_0x24_names:
  assumes "37 \<le> length buffer"
  shows "\<exists>updates. decode_0x24 folder buffer = Inr updates \<and>
           map fst updates = map ((@) folder) record_names_0x24"
  unfolding decode_0x24_Inr [OF assms] by (simp add: record_names_0x24_def)

lemma decode_0x34_names:
  assumes "55 \<le> length buffer"
  shows "\<exists>updates. decode_0x34 folder buffer = Inr updates \<and>
           map fst updates = map ((@) folder) record_names_0x34"
  using assms
  by (simp add: decode_0x34_def cell_voltage_def temperature_def num_entry_def
      readUInt16BE_def record_names_0x34_def)

lemma decode_0x12_names:
  "map fst (decode_0x12 folder buffer) = map ((@) folder) record_names_0x12"
  by (simp add: decode_0x12_def text_entry_def record_names_0x12_def)

lemma frame_ok_subtype:
  assumes "frame_ok frame"
  shows "js_at frame 2 = Some 0x24 \<and> length frame = 41 \<or>
         js_at frame 2 = Some 0x34 \<and> length frame = 57 \<or>
         js_at frame 2 = Some 0x12 \<and> length frame = 23"
proof -
  have valid: "isValidHeader frame" and el: "getExpectedLength frame = int (length frame)"
    using assms by (simp_all add: frame_ok_def)
  have len: "3 \<le> length frame"
    using valid by (rule isValidHeader_length)
  have "frame ! 2 = 0x24 \<and> int (length frame) = 41 \<or>
        frame ! 2 = 0x34 \<and> int (length frame) = 57 \<or>
        frame ! 2 = 0x12 \<and> int (length frame) = 23"
    using valid el unfolding isValidHeader_iff [OF len] getExpectedLength_eq [OF len]
    by (auto split: if_splits)
  then show ?thesis
    unfolding js_at_header [OF len] by auto
qed

lemma decode_validated:
  assumes "frame_ok frame"
  shows "\<exists>updates. decode folder frame = Inr updates \<and>
           map fst updates = map ((@) folder) (record_names frame) \<and>
           record_names frame \<noteq> [] \<and> distinct (record_names frame) \<and>
           [] \<notin> set (record_names frame)"
proof -
  consider (a) "js_at frame 2 = Some 0x24" "length frame = 41"
    | (b) "js_at frame 2 = Some 0x34" "length frame = 57"
    | (c) "js_at frame 2 = Some 0x12" "length frame = 23"
    using frame_ok_subtype [OF assms] by blast
  then show ?thesis
  proof cases
    case a
    have d: "decode folder frame = decode_0x24 folder frame"
      and n: "record_names frame = record_names_0x24"
      using a(1) by (simp_all add: decode_def record_names_def)
    have "37 \<le> length frame"
      using a(2) by simp
    then obtain updates where "decode_0x24 folder frame = Inr updates"
      "map fst updates = map ((@) folder) record_names_0x24"
      using decode_0x24_names by blast
    moreover have "record_names_0x24 \<noteq> []"
      by (simp add: record_names_0x24_def)
    ultimately show ?thesis
      unfolding d n using record_names_distinct(1) record_names_nonempty(1) by blast
  next
    case b
    have d: "decode folder frame = decode_0x34 folder frame"
      and n: "record_names frame = record_names_0x34"
      using b(1) by (simp_all add: decode_def record_names_def)
    have "55 \<le> length frame"
      using b(2) by simp
    then obtain updates where "decode_0x34 folder frame = Inr updates"
      "map fst updates = map ((@) folder) record_names_0x34"
      using decode_0x34_names by blast
    moreover have "record_names_0x34 \<noteq> []"
      by (simp add: record_names_0x34_def)
    ultimately show ?thesis
      unfolding d n using record_names_distinct(2) record_names_nonempty(2) by blast
  next
    case c
    have d: "decode folder frame = Inr (decode_0x12 folder frame)"
      and n: "record_names frame = record_names_0x12"
      using c(1) by (simp_all add: decode_def record_names_def)
    have "record_names_0x12 \<noteq> []"
      by (simp add: record_names_0x12_def)
    then show ?thesis
      unfolding d n
      using decode_0x12_names [of folder frame] record_names_distinct(3)
        record_names_nonempty(3) by blast
  qed
qed

lemma frame_ok_master:
  assumes "frame_ok frame"
  shows "bmsIndex frame = Some 0 \<longleftrightarrow> frame ! 0 = 0x01"
proof -
  have idx: "bmsIndex frame = Some (uint (frame ! 0) - 1)"
    using frame_ok_address [OF assms] by simp
  have "frame ! 0 = 0x01 \<longleftrightarrow> uint (frame ! 0) = uint (1 :: byte)"
    by (simp only: word_uint_eq_iff)
  then show ?thesis
    unfolding idx by simp
qed

lemma bmsFolder_0: "bmsIndex frame = Some 0 \<Longrightarrow> bmsFolder frame = ''bms_0''"
  by (simp add: bmsFolder_def show_index_def show_int_def show_nat.simps digit_char_def)

lemma ensureObjectExists_made:
  "knownIds (ensureObjectExists host_ok st ident ob) =
     knownIds st @ (if \<not> isShuttingDown st \<and> unknown host_ok st ident then [ident] else [])"
  "objects (ensureObjectExists host_ok st ident ob) =
     objects st @ (if \<not> isShuttingDown st \<and> unknown host_ok st ident then [(ident, ob)] else [])"
  by (simp_all add: ensureObjectExists_def unknown_def)

text \<open>
  The state that \<open>processPacket\<close> leaves after a validated frame, field by field.
\<close>

lemma processPacket_validated:
  assumes ok: "frame_ok frame"
  shows "\<exists>updates.
     decode (bmsFolder frame) frame = Inr updates \<and>
     map fst updates = map ((@) (bmsFolder frame)) (record_names frame) \<and>
     record_names frame \<noteq> [] \<and>
     snd (processPacket host_ok t0 t1 st frame) = None \<and>
     states (fst (processPacket host_ok t0 t1 st frame)) =
       states st @
       (if frame ! 0 = 0x01 then [(''info.connection'', Boolean True)] else []) @
       (if isShuttingDown st then [] else map state_value (passing st t1 updates)) \<and>
     lastDataReceived (fst (processPacket host_ok t0 t1 st frame)) =
       (if frame ! 0 = 0x01 then t0 else lastDataReceived st) \<and>
     (\<forall>k. lastUpdate (fst (processPacket host_ok t0 t1 st frame)) k =
       (if k \<in> fst ` set (passing st t1 updates) then Some t1 else lastUpdate st k)) \<and>
     knownIds (fst (processPacket host_ok t0 t1 st frame)) =
       knownIds st @
       (if isShuttingDown st then []
        else (if unknown host_ok st (bmsFolder frame) then [bmsFolder frame] else []) @
             map fst (filter (\<lambda>e. unknown host_ok st (fst e)) (passing st t1 updates))) \<and>
     objects (fst (processPacket host_ok t0 t1 st frame)) =
       objects st @
       (if isShuttingDown st then []
        else (if unknown host_ok st (bmsFolder frame)
              then [(bmsFolder frame, Channel (''bms '' @ show_index (bmsIndex frame)))]
              else []) @
             map state_object (filter (\<lambda>e. unknown host_ok st (fst e)) (passing st t1 updates))) \<and>
     isShuttingDown (fst (processPacket host_ok t0 t1 st frame)) = isShuttingDown st \<and>
     updateInterval (fst (processPacket host_ok t0 t1 st frame)) = updateInterval st"
proof -
  define folder where "folder = bmsFolder frame"
  define ch where "ch = Channel (''bms '' @ show_index (bmsIndex frame))"
  define st1 where "st1 = (if bmsIndex frame = Some 0
      then st\<lparr>lastDataReceived := t0,
              states := states st @ [(''info.connection'', Boolean True)]\<rparr>
      else st)"
  define st2 where "st2 = ensureObjectExists host_ok st1 folder ch"
  obtain updates where dec: "decode folder frame = Inr updates"
    and keys: "map fst updates = map ((@) folder) (record_names frame)"
    and ne: "record_names frame \<noteq> []" and dn: "distinct (record_names frame)"
    and nn: "[] \<notin> set (record_names frame)"
    using decode_validated [OF ok] by blast
  have m: "bmsIndex frame = Some 0 \<longleftrightarrow> frame ! 0 = 0x01"
    using ok by (rule frame_ok_master)
  have pp: "processPacket host_ok t0 t1 st frame = (publish host_ok t1 st2 updates, None)"
    using dec by (simp add: processPacket_def Let_def st1_def st2_def folder_def ch_def)
  have dist: "distinct (map fst updates)"
    unfolding keys using dn by (simp add: distinct_map inj_on_def)
  have other: "fst e \<noteq> folder" if "e \<in> set updates" for e
  proof -
    have "fst e \<in> set (map fst updates)"
      using that by simp
    then obtain n where "n \<in> set (record_names frame)" and "fst e = folder @ n"
      unfolding keys by auto
    then show ?thesis
      using nn by auto
  qed
  have f1: "lastUpdate st1 = lastUpdate st" "updateInterval st1 = updateInterval st"
    "isShuttingDown st1 = isShuttingDown st" "knownIds st1 = knownIds st"
    "objects st1 = objects st"
    "states st1 = states st @
       (if frame ! 0 = 0x01 then [(''info.connection'', Boolean True)] else [])"
    "lastDataReceived st1 = (if frame ! 0 = 0x01 then t0 else lastDataReceived st)"
    by (simp_all add: st1_def m)
  have u1: "unknown host_ok st1 k = unknown host_ok st k" for k
    by (simp add: unknown_def f1)
  have f2: "lastUpdate st2 = lastUpdate st" "updateInterval st2 = updateInterval st"
    "isShuttingDown st2 = isShuttingDown st"
    "states st2 = states st @
       (if frame ! 0 = 0x01 then [(''info.connection'', Boolean True)] else [])"
    "lastDataReceived st2 = (if frame ! 0 = 0x01 then t0 else lastDataReceived st)"
    unfolding st2_def by (simp_all add: ensureObjectExists_fields f1)
  have k2: "knownIds st2 =
      knownIds st @ (if \<not> isShuttingDown st \<and> unknown host_ok st folder then [folder] else [])"
    and o2: "objects st2 =
      objects st @ (if \<not> isShuttingDown st \<and> unknown host_ok st folder then [(folder, ch)] else [])"
    unfolding st2_def ensureObjectExists_made u1 f1 by simp_all
  have pass: "passing st2 t1 updates = passing st t1 updates"
    unfolding passing_def
    by (rule filter_cong [OF refl], rule shouldEmit_cong) (simp_all add: f2)
  have unk: "filter (\<lambda>e. unknown host_ok st2 (fst e)) (passing st t1 updates) =
      filter (\<lambda>e. unknown host_ok st (fst e)) (passing st t1 updates)"
  proof (rule filter_cong [OF refl])
    fix e
    assume "e \<in> set (passing st t1 updates)"
    then have "e \<in> set updates"
      using passing_subset by blast
    then have "fst e \<noteq> folder"
      by (rule other)
    then show "unknown host_ok st2 (fst e) = unknown host_ok st (fst e)"
      by (simp add: unknown_def k2)
  qed
  let ?st' = "fst (processPacket host_ok t0 t1 st frame)"
  have st': "?st' = publish host_ok t1 st2 updates"
    by (simp add: pp)
  have r1: "snd (processPacket host_ok t0 t1 st frame) = None"
    by (simp add: pp)
  have r2: "states ?st' =
       states st @
       (if frame ! 0 = 0x01 then [(''info.connection'', Boolean True)] else []) @
       (if isShuttingDown st then [] else map state_value (passing st t1 updates))"
    unfolding st' publish_written [OF dist] pass f2 by simp
  have r3: "lastDataReceived ?st' = (if frame ! 0 = 0x01 then t0 else lastDataReceived st)"
    unfolding st' using publish_kept [of host_ok t1 st2 updates] by (simp add: f2)
  have r4: "\<forall>k. lastUpdate ?st' k =
       (if k \<in> fst ` set (passing st t1 updates) then Some t1 else lastUpdate st k)"
    unfolding st' publish_stamped [OF dist] pass f2 by simp
  have r5: "knownIds ?st' =
       knownIds st @
       (if isShuttingDown st then []
        else (if unknown host_ok st folder then [folder] else []) @
             map fst (filter (\<lambda>e. unknown host_ok st (fst e)) (passing st t1 updates)))"
    unfolding st' publish_knownIds [OF dist] pass unk f2 k2 by simp
  have r6: "objects ?st' =
       objects st @
       (if isShuttingDown st then []
        else (if unknown host_ok st folder then [(folder, ch)] else []) @
             map state_object (filter (\<lambda>e. unknown host_ok st (fst e)) (passing st t1 updates)))"
    unfolding st' publish_objects [OF dist] pass unk f2 o2 by simp
  have r7: "isShuttingDown ?st' = isShuttingDown st"
    and r8: "updateInterval ?st' = updateInterval st"
    unfolding st' using publish_kept [of host_ok t1 st2 updates] by (simp_all add: f2)
  show ?thesis
    using dec keys ne r1 r2 r3 r4 r5 r6 r7 r8 unfolding folder_def ch_def by blast
qed


text \<open>
  Claim C8. For every validated frame, the device index is the address byte minus 1 and
  lies in [0, 15]. A frame with address byte 0x01 has index 0 and triggers the link-alive
  signal: the last-data timestamp becomes the current time and the connection state is
  written as true. A frame with address byte 0x10 is decoded under the folder bms_15
  without link-alive effect: the last-data timestamp, the shutdown flag and the interval
  are unchanged, no connection state is written, and every gate entry changed, state
  written, id remembered and object created belongs to bms_15.

  What the call leaves behind is given field by field. For every validated frame the
  decoder succeeds with the records of the subtype, named under the folder of the device,
  and the call ends without error. The state log grows by the connection state (for
  address 0x01 only), followed, unless the adapter is shutting down, by the values of the
  records that pass the gate, in order; the gate entries of exactly these records are set
  to the current time; the last-data timestamp is the current time for address 0x01 and
  is unchanged otherwise; the ids remembered and the objects created are those of the
  folder and of the passing records that the host accepts and that were not known; the
  shutdown flag and the interval are unchanged. For address 0x01 the folder is bms_0 and
  the connection state is the first state written by the call; for address 0x10 the
  folder is bms_15, its channel is "bms 15", and the states written are exactly the values
  of the passing records of bms_15.
\<close>

theorem C8_device_index:
  "(frame_ok frame \<longrightarrow>
      bmsIndex frame = Some (uint (frame ! 0) - 1) \<and>
      0 \<le> uint (frame ! 0) - 1 \<and> uint (frame ! 0) - 1 \<le> 15) \<and>
   (frame_ok frame \<and> frame ! 0 = 0x01 \<longrightarrow>
      bmsIndex frame = Some 0 \<and>
      lastDataReceived (fst (processPacket host_ok t0 t1 st frame)) = t0 \<and>
      (''info.connection'', Boolean True) \<in> set (states (fst (processPacket host_ok t0 t1 st frame)))) \<and>
   (frame_ok frame \<and> frame ! 0 = 0x10 \<longrightarrow>
      bmsIndex frame = Some 15 \<and> bmsFolder frame = ''bms_15'' \<and>
      confined ''bms_15'' st (fst (processPacket host_ok t0 t1 st frame)) \<and>
      lastDataReceived (fst (processPacket host_ok t0 t1 st frame)) = lastDataReceived st \<and>
      (\<exists>new. states (fst (processPacket host_ok t0 t1 st frame)) = states st @ new \<and>
             (''info.connection'', Boolean True) \<notin> set new)) \<and>
   (frame_ok frame \<longrightarrow>
      (\<exists>updates.
         decode (bmsFolder frame) frame = Inr updates \<and>
         map fst updates = map ((@) (bmsFolder frame)) (record_names frame) \<and>
         record_names frame \<noteq> [] \<and>
         snd (processPacket host_ok t0 t1 st frame) = None \<and>
         states (fst (processPacket host_ok t0 t1 st frame)) =
           states st @
           (if frame ! 0 = 0x01 then [(''info.connection'', Boolean True)] else []) @
           (if isShuttingDown st then [] else map state_value (passing st t1 updates)) \<and>
         lastDataReceived (fst (processPacket host_ok t0 t1 st frame)) =
           (if frame ! 0 = 0x01 then t0 else lastDataReceived st) \<and>
         (\<forall>k. lastUpdate (fst (processPacket host_ok t0 t1 st frame)) k =
           (if k \<in> fst ` set (passing st t1 updates) then Some t1 else lastUpdate st k)) \<and>
         knownIds (fst (processPacket host_ok t0 t1 st frame)) =
           knownIds st @
           (if isShuttingDown st then []
            else (if unknown host_ok st (bmsFolder frame) then [bmsFolder frame] else []) @
                 map fst (filter (\<lambda>e. unknown host_ok st (fst e)) (passing st t1 updates))) \<and>
         objects (fst (processPacket host_ok t0 t1 st frame)) =
           objects st @
           (if isShuttingDown st then []
            else (if unknown host_ok st (bmsFolder frame)
                  then [(bmsFolder frame, Channel (''bms '' @ show_index (bmsIndex frame)))]
                  else []) @
                 map state_object
                   (filter (\<lambda>e. unknown host_ok st (fst e)) (passing st t1 updates))) \<and>
         isShuttingDown (fst (processPacket host_ok t0 t1 st frame)) = isShuttingDown st \<and>
         updateInterval (fst (processPacket host_ok t0 t1 st frame)) = updateInterval st)) \<and>
   (frame_ok frame \<and> frame ! 0 = 0x01 \<longrightarrow>
      bmsFolder frame = ''bms_0'' \<and>
      (\<exists>updates.
         decode ''bms_0'' frame = Inr updates \<and>
         map fst updates = map ((@) ''bms_0'') (record_names frame) \<and>
         record_names frame \<noteq> [] \<and>
         snd (processPacket host_ok t0 t1 st frame) = None \<and>
         states (fst (processPacket host_ok t0 t1 st frame)) =
           states st @
           (''info.connection'', Boolean True) #
           (if isShuttingDown st then [] else map state_value (passing st t1 updates)) \<and>
         (\<forall>k. lastUpdate (fst (processPacket host_ok t0 t1 st frame)) k =
           (if k \<in> fst ` set (passing st t1 updates) then Some t1 else lastUpdate st k)))) \<and>
   (frame_ok frame \<and> frame ! 0 = 0x10 \<longrightarrow>
      (\<exists>updates.
         decode ''bms_15'' frame = Inr updates \<and>
         map fst updates = map ((@) ''bms_15'') (record_names frame) \<and>
         record_names frame \<noteq> [] \<and>
         snd (processPacket host_ok t0 t1 st frame) = None \<and>
         states (fst (processPacket host_ok t0 t1 st frame)) =
           states st @
           (if isShuttingDown st then [] else map state_value (passing st t1 updates)) \<and>
         (\<forall>k. lastUpdate (fst (processPacket host_ok t0 t1 st frame)) k =
           (if k \<in> fst ` set (passing st t1 updates) then Some t1 else lastUpdate st k)) \<and>
         knownIds (fst (processPacket host_ok t0 t1 st frame)) =
           knownIds st @
           (if isShuttingDown st then []
            else (if unknown host_ok st ''bms_15'' then [''bms_15''] else []) @
                 map fst (filter (\<lambda>e. unknown host_ok st (fst e)) (passing st t1 updates))) \<and>
         objects (fst (processPacket host_ok t0 t1 st frame)) =
           objects st @
           (if isShuttingDown st then []
            else (if unknown host_ok st ''bms_15''
                  then [(''bms_15'', Channel ''bms 15'')] else []) @
                 map state_object
                   (filter (\<lambda>e. unknown host_ok st (fst e)) (passing st t1 updates)))))"
proof -
  let ?st' = "fst (processPacket host_ok t0 t1 st frame)"
  have c1: "frame_ok frame \<longrightarrow>
      bmsIndex frame = Some (uint (frame ! 0) - 1) \<and>
      0 \<le> uint (frame ! 0) - 1 \<and> uint (frame ! 0) - 1 \<le> 15"
    using frame_ok_address by blast
  have c2: "frame_ok frame \<and> frame ! 0 = 0x01 \<longrightarrow>
      bmsIndex frame = Some 0 \<and> lastDataReceived ?st' = t0 \<and>
      (''info.connection'', Boolean True) \<in> set (states ?st')"
  proof (intro impI)
    assume a: "frame_ok frame \<and> frame ! 0 = 0x01"
    then have idx: "bmsIndex frame = Some 0"
      using frame_ok_address [of frame] by simp
    let ?st1 = "st\<lparr>lastDataReceived := t0,
                  states := states st @ [(''info.connection'', Boolean True)]\<rparr>"
    have c: "confined (bmsFolder frame) ?st1 ?st'"
      using idx by (rule processPacket_master)
    then have l: "lastDataReceived ?st' = t0"
      by (simp add: confined_def)
    obtain new where "states ?st' = states ?st1 @ new"
      using c unfolding confined_def by blast
    then have "(''info.connection'', Boolean True) \<in> set (states ?st')"
      by simp
    then show "bmsIndex frame = Some 0 \<and> lastDataReceived ?st' = t0 \<and>
      (''info.connection'', Boolean True) \<in> set (states ?st')"
      using idx l by simp
  qed
  have c3: "frame_ok frame \<and> frame ! 0 = 0x10 \<longrightarrow>
      bmsIndex frame = Some 15 \<and> bmsFolder frame = ''bms_15'' \<and>
      confined ''bms_15'' st ?st' \<and>
      lastDataReceived ?st' = lastDataReceived st \<and>
      (\<exists>new. states ?st' = states st @ new \<and> (''info.connection'', Boolean True) \<notin> set new)"
  proof (intro impI)
    assume a: "frame_ok frame \<and> frame ! 0 = 0x10"
    then have idx: "bmsIndex frame = Some 15"
      using frame_ok_address [of frame] by simp
    then have folder: "bmsFolder frame = ''bms_15''"
      by (rule bmsFolder_15)
    have "bmsIndex frame \<noteq> Some 0"
      using idx by simp
    then have "confined (bmsFolder frame) st ?st'"
      by (rule processPacket_other_device)
    then have c: "confined ''bms_15'' st ?st'"
      by (simp only: folder)
    then have l: "lastDataReceived ?st' = lastDataReceived st"
      by (simp add: confined_def)
    obtain new where new: "states ?st' = states st @ new"
      "\<forall>e \<in> set new. prefix ''bms_15'' (fst e)"
      using c unfolding confined_def by blast
    have "(''info.connection'', Boolean True) \<notin> set new"
    proof
      assume "(''info.connection'', Boolean True) \<in> set new"
      then have "prefix ''bms_15'' ''info.connection''"
        using new(2) by fastforce
      then show False
        by simp
    qed
    then have "\<exists>new. states ?st' = states st @ new \<and>
        (''info.connection'', Boolean True) \<notin> set new"
      using new(1) by blast
    then show "bmsIndex frame = Some 15 \<and> bmsFolder frame = ''bms_15'' \<and>
      confined ''bms_15'' st ?st' \<and>
      lastDataReceived ?st' = lastDataReceived st \<and>
      (\<exists>new. states ?st' = states st @ new \<and> (''info.connection'', Boolean True) \<notin> set new)"
      using idx folder c l by blast
  qed
  note c4 = processPacket_validated [of frame host_ok t0 t1 st]
  have c5: "frame_ok frame \<and> frame ! 0 = 0x01 \<longrightarrow>
      bmsFolder frame = ''bms_0'' \<and>
      (\<exists>updates.
         decode ''bms_0'' frame = Inr updates \<and>
         map fst updates = map ((@) ''bms_0'') (record_names frame) \<and>
         record_names frame \<noteq> [] \<and>
         snd (processPacket host_ok t0 t1 st frame) = None \<and>
         states ?st' =
           states st @
           (''info.connection'', Boolean True) #
           (if isShuttingDown st then [] else map state_value (passing st t1 updates)) \<and>
         (\<forall>k. lastUpdate ?st' k =
           (if k \<in> fst ` set (passing st t1 updates) then Some t1 else lastUpdate st k)))"
  proof (intro impI)
    assume a: "frame_ok frame \<and> frame ! 0 = 0x01"
    then have ok: "frame_ok frame" and b: "frame ! 0 = 0x01"
      by simp_all
    have "bmsIndex frame = Some 0"
      using frame_ok_master [OF ok] b by simp
    then have folder: "bmsFolder frame = ''bms_0''"
      by (rule bmsFolder_0)
    obtain updates where u: "decode (bmsFolder frame) frame = Inr updates"
      "map fst updates = map ((@) (bmsFolder frame)) (record_names frame)"
      "record_names frame \<noteq> []"
      "snd (processPacket host_ok t0 t1 st frame) = None"
      "states ?st' =
         states st @
         (if frame ! 0 = 0x01 then [(''info.connection'', Boolean True)] else []) @
         (if isShuttingDown st then [] else map state_value (passing st t1 updates))"
      "\<forall>k. lastUpdate ?st' k =
         (if k \<in> fst ` set (passing st t1 updates) then Some t1 else lastUpdate st k)"
      using c4 [OF ok] by blast
    have s: "states ?st' =
           states st @
           (''info.connection'', Boolean True) #
           (if isShuttingDown st then [] else map state_value (passing st t1 updates))"
      unfolding u(5) b by simp
    show "bmsFolder frame = ''bms_0'' \<and>
      (\<exists>updates.
         decode ''bms_0'' frame = Inr updates \<and>
         map fst updates = map ((@) ''bms_0'') (record_names frame) \<and>
         record_names frame \<noteq> [] \<and>
         snd (processPacket host_ok t0 t1 st frame) = None \<and>
         states ?st' =
           states st @
           (''info.connection'', Boolean True) #
           (if isShuttingDown st then [] else map state_value (passing st t1 updates)) \<and>
         (\<forall>k. lastUpdate ?st' k =
           (if k \<in> fst ` set (passing st t1 updates) then Some t1 else lastUpdate st k)))"
      using folder u(1,2,3,4,6) [unfolded folder] s by blast
  qed
  have c6: "frame_ok frame \<and> frame ! 0 = 0x10 \<longrightarrow>
      (\<exists>updates.
         decode ''bms_15'' frame = Inr updates \<and>
         map fst updates = map ((@) ''bms_15'') (record_names frame) \<and>
         record_names frame \<noteq> [] \<and>
         snd (processPacket host_ok t0 t1 st frame) = None \<and>
         states ?st' =
           states st @
           (if isShuttingDown st then [] else map state_value (passing st t1 updates)) \<and>
         (\<forall>k. lastUpdate ?st' k =
           (if k \<in> fst ` set (passing st t1 updates) then Some t1 else lastUpdate st k)) \<and>
         knownIds ?st' =
           knownIds st @
           (if isShuttingDown st then []
            else (if unknown host_ok st ''bms_15'' then [''bms_15''] else []) @
                 map fst (filter (\<lambda>e. unknown host_ok st (fst e)) (passing st t1 updates))) \<and>
         objects ?st' =
           objects st @
           (if isShuttingDown st then []
            else (if unknown host_ok st ''bms_15''
                  then [(''bms_15'', Channel ''bms 15'')] else []) @
                 map state_object
                   (filter (\<lambda>e. unknown host_ok st (fst e)) (passing st t1 updates))))"
  proof (intro impI)
    assume a: "frame_ok frame \<and> frame ! 0 = 0x10"
    then have ok: "frame_ok frame" and b: "frame ! 0 = 0x10"
      by simp_all
    have idx: "bmsIndex frame = Some 15"
      using frame_ok_address [OF ok] b by simp
    then have folder: "bmsFolder frame = ''bms_15''"
      by (rule bmsFolder_15)
    have ch: "''bms '' @ show_index (bmsIndex frame) = ''bms 15''"
      unfolding idx by (simp add: show_index_def show_int_def show_nat.simps digit_char_def)
    obtain updates where u: "decode (bmsFolder frame) frame = Inr updates"
      "map fst updates = map ((@) (bmsFolder frame)) (record_names frame)"
      "record_names frame \<noteq> []"
      "snd (processPacket host_ok t0 t1 st frame) = None"
      "states ?st' =
         states st @
         (if frame ! 0 = 0x01 then [(''info.connection'', Boolean True)] else []) @
         (if isShuttingDown st then [] else map state_value (passing st t1 updates))"
      "\<forall>k. lastUpdate ?st' k =
         (if k \<in> fst ` set (passing st t1 updates) then Some t1 else lastUpdate st k)"
      "knownIds ?st' =
         knownIds st @
         (if isShuttingDown st then []
          else (if unknown host_ok st (bmsFolder frame) then [bmsFolder frame] else []) @
               map fst (filter (\<lambda>e. unknown host_ok st (fst e)) (passing st t1 updates)))"
      "objects ?st' =
         objects st @
         (if isShuttingDown st then []
          else (if unknown host_ok st (bmsFolder frame)
                then [(bmsFolder frame, Channel (''bms '' @ show_index (bmsIndex frame)))]
                else []) @
               map state_object
                 (filter (\<lambda>e. unknown host_ok st (fst e)) (passing st t1 updates)))"
      using c4 [OF ok] by blast
    have s: "states ?st' =
           states st @
           (if isShuttingDown st then [] else map state_value (passing st t1 updates))"
      unfolding u(5) b by simp
    show "\<exists>updates.
         decode ''bms_15'' frame = Inr updates \<and>
         map fst updates = map ((@) ''bms_15'') (record_names frame) \<and>
         record_names frame \<noteq> [] \<and>
         snd (processPacket host_ok t0 t1 st frame) = None \<and>
         states ?st' =
           states st @
           (if isShuttingDown st then [] else map state_value (passing st t1 updates)) \<and>
         (\<forall>k. lastUpdate ?st' k =
           (if k \<in> fst ` set (passing st t1 updates) then Some t1 else lastUpdate st k)) \<and>
         knownIds ?st' =
           knownIds st @
           (if isShuttingDown st then []
            else (if unknown host_ok st ''bms_15'' then [''bms_15''] else []) @
                 map fst (filter (\<lambda>e. unknown host_ok st (fst e)) (passing st t1 updates))) \<and>
         objects ?st' =
           objects st @
           (if isShuttingDown st then []
            else (if unknown host_ok st ''bms_15''
                  then [(''bms_15'', Channel ''bms 15'')] else []) @
                 map state_object
                   (filter (\<lambda>e. unknown host_ok st (fst e)) (passing st t1 updates)))"
      using u(1,2,3,4,6,7) [unfolded folder] u(8) [unfolded ch, unfolded folder] s by blast
  qed
  show ?thesis
    using c1 c2 c3 c4 c5 c6 by blast
qed

lemma fst_comp_state_value: "fst \<circ> state_value = fst"
  by (rule ext) (simp add: state_value_def)

lemma passing_fresh: "passing fresh now updates = updates"
  by (simp add: passing_def shouldEmit_def fresh_def)

lemma unknown_fresh: "unknown (\<lambda>_. True) fresh k"
  by (simp add: unknown_def fresh_def)

lemma fresh_fields:
  "states fresh = []" "knownIds fresh = []" "\<not> isShuttingDown fresh"
  "lastDataReceived fresh = 0" "lastUpdate fresh k = None"
  by (simp_all add: fresh_def)

lemma sample_record_names:
  "record_names sample_0x24 = record_names_0x24"
  "record_names sample_0x24_dev16 = record_names_0x24"
  by (simp_all add: record_names_def sample_0x24_def sample_0x24_dev16_def js_at_def)

theorem C8_device_index_witness:
  "frame_ok sample_0x24 \<and> sample_0x24 ! 0 = 0x01 \<and> bmsIndex sample_0x24 = Some 0 \<and>
   lastDataReceived (fst (processPacket (\<lambda>_. True) 1700000000000 1700000000002 fresh sample_0x24))
     = 1700000000000 \<and>
   frame_ok sample_0x24_dev16 \<and> sample_0x24_dev16 ! 0 = 0x10 \<and>
   bmsIndex sample_0x24_dev16 = Some 15 \<and> bmsFolder sample_0x24_dev16 = ''bms_15'' \<and>
   confined ''bms_15'' fresh
     (fst (processPacket (\<lambda>_. True) 1700000000000 1700000000002 fresh sample_0x24_dev16)) \<and>
   lastDataReceived
     (fst (processPacket (\<lambda>_. True) 1700000000000 1700000000002 fresh sample_0x24_dev16)) = 0 \<and>
   snd (processPacket (\<lambda>_. True) 1700000000000 1700000000002 fresh sample_0x24_dev16) = None \<and>
   map fst (states
     (fst (processPacket (\<lambda>_. True) 1700000000000 1700000000002 fresh sample_0x24_dev16))) =
     map ((@) ''bms_15'') record_names_0x24 \<and>
   knownIds
     (fst (processPacket (\<lambda>_. True) 1700000000000 1700000000002 fresh sample_0x24_dev16)) =
     ''bms_15'' # map ((@) ''bms_15'') record_names_0x24 \<and>
   lastUpdate
     (fst (processPacket (\<lambda>_. True) 1700000000000 1700000000002 fresh sample_0x24_dev16))
     ''bms_15.soc'' = Some 1700000000002 \<and>
   lastUpdate
     (fst (processPacket (\<lambda>_. True) 1700000000000 1700000000002 fresh sample_0x24_dev16))
     ''info.connection'' = None \<and>
   hd (states
     (fst (processPacket (\<lambda>_. True) 1700000000000 1700000000002 fresh sample_0x24))) =
     (''info.connection'', Boolean True) \<and>
   map fst (states
     (fst (processPacket (\<lambda>_. True) 1700000000000 1700000000002 fresh sample_0x24))) =
     ''info.connection'' # map ((@) ''bms_0'') record_names_0x24"
proof -
  let ?p1 = "processPacket (\<lambda>_. True) 1700000000000 1700000000002 fresh sample_0x24"
  let ?p16 = "processPacket (\<lambda>_. True) 1700000000000 1700000000002 fresh sample_0x24_dev16"
  note i1 = C8_device_index [of sample_0x24 "\<lambda>_. True" 1700000000000 1700000000002 fresh]
  note i16 = C8_device_index [of sample_0x24_dev16 "\<lambda>_. True" 1700000000000 1700000000002 fresh]
  have a: "sample_0x24 ! 0 = 0x01" and b: "sample_0x24_dev16 ! 0 = 0x10"
    by (simp_all add: sample_0x24_def sample_0x24_dev16_def)
  have h1: "frame_ok sample_0x24 \<and> sample_0x24 ! 0 = 0x01"
    using sample_0x24_ok a by simp
  have h16: "frame_ok sample_0x24_dev16 \<and> sample_0x24_dev16 ! 0 = 0x10"
    using sample_0x24_dev16_ok b by simp
  from i1 h1 have old1: "bmsIndex sample_0x24 = Some 0 \<and>
      lastDataReceived (fst ?p1) = 1700000000000"
    by blast
  from i16 h16 have old16: "bmsIndex sample_0x24_dev16 = Some 15 \<and>
      bmsFolder sample_0x24_dev16 = ''bms_15'' \<and> confined ''bms_15'' fresh (fst ?p16) \<and>
      lastDataReceived (fst ?p16) = lastDataReceived fresh"
    by blast
  from i16 h16 obtain updates where
    k: "map fst updates = map ((@) ''bms_15'') (record_names sample_0x24_dev16)"
    and e: "snd ?p16 = None"
    and s: "states (fst ?p16) =
      states fresh @
      (if isShuttingDown fresh then []
       else map state_value (passing fresh 1700000000002 updates))"
    and l: "\<forall>k. lastUpdate (fst ?p16) k =
      (if k \<in> fst ` set (passing fresh 1700000000002 updates) then Some 1700000000002
       else lastUpdate fresh k)"
    and ids: "knownIds (fst ?p16) =
      knownIds fresh @
      (if isShuttingDown fresh then []
       else (if unknown (\<lambda>_. True) fresh ''bms_15'' then [''bms_15''] else []) @
            map fst (filter (\<lambda>e. unknown (\<lambda>_. True) fresh (fst e))
              (passing fresh 1700000000002 updates)))"
    by blast
  have keys: "fst ` set updates = set (map ((@) ''bms_15'') record_names_0x24)"
    using k unfolding sample_record_names by (metis list.set_map)
  have s16: "map fst (states (fst ?p16)) = map ((@) ''bms_15'') record_names_0x24"
    using k by (simp add: s passing_fresh fresh_fields fst_comp_state_value sample_record_names)
  have ids16: "knownIds (fst ?p16) = ''bms_15'' # map ((@) ''bms_15'') record_names_0x24"
    using k by (simp add: ids passing_fresh fresh_fields unknown_fresh sample_record_names)
  have l16: "lastUpdate (fst ?p16) ''bms_15.soc'' = Some 1700000000002"
    and n16: "lastUpdate (fst ?p16) ''info.connection'' = None"
    using l by (simp_all add: passing_fresh keys fresh_fields record_names_0x24_def)
  from i1 h1 obtain updates1 where
    k1: "map fst updates1 = map ((@) ''bms_0'') (record_names sample_0x24)"
    and s1: "states (fst ?p1) =
      states fresh @
      (''info.connection'', Boolean True) #
      (if isShuttingDown fresh then []
       else map state_value (passing fresh 1700000000002 updates1))"
    by blast
  have hd1: "hd (states (fst ?p1)) = (''info.connection'', Boolean True)"
    by (simp add: s1 fresh_fields)
  have m1: "map fst (states (fst ?p1)) =
      ''info.connection'' # map ((@) ''bms_0'') record_names_0x24"
    using k1 by (simp add: s1 passing_fresh fresh_fields fst_comp_state_value sample_record_names)
  have z: "lastDataReceived (fst ?p16) = 0"
    using old16 by (simp add: fresh_fields)
  show ?thesis
    using h1 h16 old1 old16 z e s16 ids16 l16 n16 hd1 m1 by blast
qed

subsection \<open>Rounding to binary64\<close>

lemma ilog2_ge_1:
  fixes x :: real
  assumes "1 \<le> \<bar>x\<bar>" and "2 powi e \<le> \<bar>x\<bar>" and "\<bar>x\<bar> < 2 powi (e + 1)"
  shows "bitlen \<lfloor>\<bar>x\<bar>\<rfloor> - 1 = e"
proof -
  have e0: "0 \<le> e"
  proof (rule ccontr)
    assume "\<not> 0 \<le> e"
    then have "e + 1 \<le> 0"
      by simp
    then have "(2 :: real) powi (e + 1) \<le> 2 powi 0"
      by (intro power_int_increasing) simp_all
    then show False
      using assms(1,3) by simp
  qed
  define n where "n = \<lfloor>\<bar>x\<bar>\<rfloor>"
  have p1: "(2 :: real) powi e = of_int (2 ^ nat e)"
    using e0 by (simp add: power_int_nonneg_exp)
  have p2: "(2 :: real) powi (e + 1) = of_int (2 ^ nat (e + 1))"
    using e0 by (simp add: power_int_nonneg_exp)
  have lo: "2 ^ nat e \<le> n"
    unfolding n_def using assms(2) unfolding p1 by (simp only: le_floor_iff)
  have hi: "n < 2 ^ nat (e + 1)"
    unfolding n_def using assms(3) unfolding p2 by (simp only: floor_less_iff)
  have "bitlen n \<le> e + 1"
    using hi e0 by (simp add: bitlen_le_iff_power)
  moreover have "e + 1 \<le> bitlen n"
  proof -
    have "nat (e + 1) - 1 = nat e"
      using e0 by simp
    then show ?thesis
      using lo by (simp add: bitlen_ge_iff_power)
  qed
  ultimately show ?thesis
    by (simp add: n_def)
qed

lemma ilog2_less_1:
  fixes x :: real
  assumes "x \<noteq> 0" and "\<bar>x\<bar> < 1" and "2 powi e \<le> \<bar>x\<bar>" and "\<bar>x\<bar> < 2 powi (e + 1)"
  shows "- bitlen (\<lceil>1 / \<bar>x\<bar>\<rceil> - 1) = e"
proof -
  have pos: "0 < \<bar>x\<bar>"
    using assms(1) by simp
  have e0: "e < 0"
  proof (rule ccontr)
    assume "\<not> e < 0"
    then have "(2 :: real) powi 0 \<le> 2 powi e"
      by (intro power_int_increasing) simp_all
    then show False
      using assms(2,3) by simp
  qed
  define b where "b = nat (- e)"
  have b1: "1 \<le> b" and eb: "e = - int b"
    using e0 by (simp_all add: b_def)
  define c where "c = \<lceil>1 / \<bar>x\<bar>\<rceil>"
  have p1: "(2 :: real) powi e = 1 / of_int (2 ^ b)"
    unfolding eb by (simp add: power_int_minus_divide)
  have p2: "(2 :: real) powi (e + 1) = 1 / of_int (2 ^ (b - 1))"
  proof -
    have "e + 1 = - int (b - 1)"
      using b1 eb by simp
    then show ?thesis
      by (simp add: power_int_minus_divide)
  qed
  have "1 / \<bar>x\<bar> \<le> of_int (2 ^ b)"
    using assms(3) pos unfolding p1 by (simp add: field_simps)
  then have hi: "c \<le> 2 ^ b"
    unfolding c_def by (simp only: ceiling_le_iff)
  have "of_int (2 ^ (b - 1)) < 1 / \<bar>x\<bar>"
    using assms(4) pos unfolding p2 by (simp add: field_simps)
  then have lo: "2 ^ (b - 1) < c"
    unfolding c_def by (simp only: less_ceiling_iff)
  have "bitlen (c - 1) \<le> int b"
    using hi by (simp add: bitlen_le_iff_power)
  moreover have "int b \<le> bitlen (c - 1)"
    using lo by (simp add: bitlen_ge_iff_power)
  ultimately show ?thesis
    by (simp add: c_def eb)
qed

lemma ilog2_unique:
  fixes x :: real
  assumes "x \<noteq> 0" and "2 powi e \<le> \<bar>x\<bar>" and "\<bar>x\<bar> < 2 powi (e + 1)"
  shows "ilog2 x = e"
proof (cases "1 \<le> \<bar>x\<bar>")
  case True
  then show ?thesis
    using ilog2_ge_1 [OF True assms(2,3)] by (simp add: ilog2_def)
next
  case False
  then have "\<bar>x\<bar> < 1"
    by simp
  from ilog2_less_1 [OF assms(1) this assms(2,3)] show ?thesis
    using False by (simp add: ilog2_def)
qed

lemma round_even_near:
  assumes "\<bar>z - of_int m\<bar> < 1 / 2"
  shows "round_even z = m"
proof -
  have lo: "real_of_int m - 1 / 2 < z" and hi: "z < real_of_int m + 1 / 2"
    using assms by linarith+
  show ?thesis
  proof (cases "real_of_int m \<le> z")
    case True
    have "\<lfloor>z\<rfloor> = m"
      using True hi by (intro floor_unique) linarith+
    then show ?thesis
      using hi by (simp add: round_even_def Let_def)
  next
    case False
    have "real_of_int (m - 1) \<le> z" and "z < real_of_int (m - 1) + 1"
      using False lo by simp_all
    then have fl: "\<lfloor>z\<rfloor> = m - 1"
      by (rule floor_unique)
    have "1 / 2 < z - real_of_int (m - 1)"
      using lo by simp
    then show ?thesis
      by (simp add: round_even_def Let_def fl)
  qed
qed

lemma round_even_of_int: "round_even (of_int m) = m"
  by (rule round_even_near) simp

lemma fl_eq:
  assumes "x \<noteq> 0" and "2 powi e \<le> \<bar>x\<bar>" and "\<bar>x\<bar> < 2 powi (e + 1)"
  shows "fl x = of_int (round_even (x / 2 powi (e - 52))) * 2 powi (e - 52)"
  using assms(1) by (simp add: fl_def Let_def ilog2_unique [OF assms])

lemma fl_52: "fl 52 = 52"
  using fl_eq [of 52 5] by (simp add: round_even_def Let_def)

lemma fl_minus_3_2: "fl (- 3 / 2) = - 3 / 2"
  using fl_eq [of "- 3 / 2" 0] by (simp add: round_even_def Let_def)

lemma fl_tenth: "fl (1 / 10) = 3602879701896397 / 36028797018963968"
  using fl_eq [of "1 / 10" "- 4"] by (simp add: round_even_def Let_def)

lemma fl_298_1: "fl (2981 / 10) = 2622115329920205 / 8796093022208"
  using fl_eq [of "2981 / 10" 8] by (simp add: round_even_def Let_def)

lemma fl_273_15: "fl (27315 / 100) = 2402652809016115 / 8796093022208"
  using fl_eq [of "27315 / 100" 8] by (simp add: round_even_def Let_def)

lemma fl_24_95: "fl (2495 / 100) = 7022800668930867 / 281474976710656"
  using fl_eq [of "2495 / 100" 4] by (simp add: round_even_def Let_def)

lemma fl_diff: "fl (109731260452045 / 4398046511104) = 109731260452045 / 4398046511104"
  using fl_eq [of "109731260452045 / 4398046511104" 4] by (simp add: round_even_def Let_def)

subsection \<open>Division by the literal 0.1\<close>

lemma not_5_dvd_power_2: "\<not> (5 :: int) dvd 2 ^ k"
proof
  assume "(5 :: int) dvd 2 ^ k"
  moreover have "coprime (5 :: int) (2 ^ k)"
  proof -
    have "gcd (5 :: int) 2 = gcd 2 (5 mod 2)"
      by (rule gcd_red_int)
    also have "\<dots> = gcd 2 1"
      by simp
    finally have "coprime (5 :: int) 2"
      by (simp add: coprime_iff_gcd_eq_1)
    then show ?thesis
      by (simp add: coprime_power_right_iff)
  qed
  ultimately have "is_unit (5 :: int)"
    using coprime_absorb_left by blast
  then show False
    by simp
qed

lemma fl_div_tenth:
  assumes "1 \<le> v" and "v < 65536"
  shows "fl (of_int v / (3602879701896397 / 36028797018963968)) = of_int (10 * v)"
proof -
  define n where "n = 10 * v"
  define k where "k = nat (bitlen n - 1)"
  define P :: real where "P = 2 ^ k"
  define x :: real where "x = of_int v / (3602879701896397 / 36028797018963968)"
  have n_pos: "0 < n" and n_hi: "n < 2 ^ 20"
    using assms by (simp_all add: n_def)
  have b1: "1 \<le> bitlen n"
    using n_pos bitlen_eq_zero_iff [of n] bitlen_nonneg [of n] by linarith
  have lo: "2 ^ k \<le> n" and hi: "n < 2 ^ (k + 1)"
  proof -
    have "nat (bitlen n) = k + 1"
      using b1 by (simp add: k_def)
    then show "2 ^ k \<le> n" and "n < 2 ^ (k + 1)"
      using bitlen_bounds [OF n_pos] by (simp_all add: k_def)
  qed
  have k19: "k \<le> 19"
  proof -
    have "(1 :: int) < 2"
      by simp
    moreover have "(2 :: int) ^ k < 2 ^ 20"
      using lo n_hi by linarith
    ultimately have "k < 20"
      by (rule power_less_imp_less_exp)
    then show ?thesis
      by simp
  qed
  have "n \<noteq> 2 ^ k"
  proof
    assume eq: "n = 2 ^ k"
    have "(5 :: int) dvd n"
      by (simp add: n_def)
    then have "(5 :: int) dvd 2 ^ k"
      by (simp only: eq)
    then show False
      using not_5_dvd_power_2 by blast
  qed
  then have lo1: "2 ^ k + 1 \<le> n"
    using lo by linarith
  have P1: "1 \<le> P" and P19: "P \<le> 524288"
  proof -
    show "1 \<le> P"
      by (simp add: P_def)
    have "(2 :: real) ^ k \<le> 2 ^ 19"
      using k19 by (intro power_increasing) simp_all
    then show "P \<le> 524288"
      by (simp add: P_def)
  qed
  have nP: "P + 1 \<le> real_of_int n" and nP2: "real_of_int n < 2 * P"
  proof -
    have "real_of_int (2 ^ k + 1) \<le> real_of_int n"
      using lo1 by (simp only: of_int_le_iff)
    then show "P + 1 \<le> real_of_int n"
      by (simp add: P_def)
    have "real_of_int n < real_of_int (2 ^ (k + 1))"
      using hi by (simp only: of_int_less_iff)
    then show "real_of_int n < 2 * P"
      by (simp add: P_def)
  qed
  have x_eq: "x = real_of_int n * (18014398509481984 / 18014398509481985)"
    by (simp add: x_def n_def)
  have x_pos: "0 < x"
    using nP P1 by (simp add: x_eq)
  have pe: "(2 :: real) powi (int k) = P" and pe1: "(2 :: real) powi (int k + 1) = 2 * P"
    by (simp_all add: P_def power_int_add)
  have pu: "(2 :: real) powi (int k - 52) = P / 4503599627370496"
  proof -
    have "(2 :: real) powi (int k - 52) = 2 powi (int k) / 2 powi 52"
      by (rule power_int_diff) simp
    then show ?thesis
      by (simp add: P_def)
  qed
  have bin_lo: "2 powi (int k) \<le> \<bar>x\<bar>"
    unfolding pe using nP P19 x_pos by (simp add: x_eq)
  have bin_hi: "\<bar>x\<bar> < 2 powi (int k + 1)"
    unfolding pe1 using nP2 x_pos P1 by (simp add: x_eq)
  define M where "M = n * 2 ^ (52 - k)"
  define q where "q = real_of_int n / P"
  have q1: "1 \<le> q" and q2: "q < 2"
    using nP nP2 P1 by (simp_all add: q_def field_simps)
  have M_eq: "real_of_int M = q * 4503599627370496"
  proof -
    have "(2 :: real) ^ (52 - k) = 2 ^ 52 / 2 ^ k"
      using k19 by (intro power_diff) simp_all
    then show ?thesis
      by (simp add: M_def q_def P_def)
  qed
  have z_eq: "x / 2 powi (int k - 52) =
      q * 4503599627370496 * (18014398509481984 / 18014398509481985)"
    using P1 by (simp add: pu x_eq q_def)
  have "\<bar>x / 2 powi (int k - 52) - real_of_int M\<bar> < 1 / 2"
    unfolding z_eq M_eq using q1 q2 by simp
  then have r: "round_even (x / 2 powi (int k - 52)) = M"
    by (rule round_even_near)
  have "fl x = real_of_int (round_even (x / 2 powi (int k - 52))) * 2 powi (int k - 52)"
    using x_pos bin_lo bin_hi by (intro fl_eq) simp_all
  also have "\<dots> = real_of_int M * 2 powi (int k - 52)"
    by (simp only: r)
  also have "\<dots> = real_of_int M * (P / 4503599627370496)"
    by (simp only: pu)
  also have "\<dots> = real_of_int n"
    using P1 by (simp add: M_eq q_def)
  finally show ?thesis
    by (simp add: x_def n_def)
qed

subsection \<open>Scaled fields of the telemetry frame\<close>

lemma u16_range: "0 \<le> u16 buffer offset \<and> u16 buffer offset < 65536"
proof -
  have "uint (buffer ! offset) < 256" and "uint (buffer ! (offset + 1)) < 256"
    using uint_bounded [of "buffer ! offset"] uint_bounded [of "buffer ! (offset + 1)"]
    by simp_all
  moreover have "0 \<le> uint (buffer ! offset)" and "0 \<le> uint (buffer ! (offset + 1))"
    by simp_all
  ultimately show ?thesis
    unfolding u16_def by linarith
qed

lemma js_div_tenth:
  assumes "0 \<le> v" and "v < 65536"
  shows "js_div (of_int v) (js_lit (1 / 10)) = 10 * of_int v"
proof (cases "v = 0")
  case True
  then show ?thesis
    by (simp add: js_div_def fl_def)
next
  case False
  then have "1 \<le> v"
    using assms(1) by simp
  from fl_div_tenth [OF this assms(2)] show ?thesis
    by (simp add: js_div_def js_lit_def fl_tenth)
qed

lemma total_discharge_capacity_entry:
  assumes "37 \<le> length buffer"
  shows "\<exists>updates. decode_0x24 folder buffer = Inr updates \<and>
           map_of updates (folder @ ''.total_discharge_capacity'') =
             Some \<lparr>upd_value = Number (10 * of_int (u16 buffer 11)), upd_unit = Some ''AH'',
                   upd_role = ''value'', upd_ctype = ''number''\<rparr>"
proof -
  have "js_div (of_int (u16 buffer 11)) (js_lit (1 / 10)) = 10 * of_int (u16 buffer 11)"
    using u16_range [of buffer 11] by (intro js_div_tenth) simp_all
  then show ?thesis
    by (simp add: decode_0x24_Inr [OF assms])
qed

text \<open>
  Claim C9. The decoder divides the raw total discharge capacity by the literal 0.1. For
  every 16-bit raw value v this binary64 division gives exactly 10 * v, although the literal
  is not exactly one tenth; so the record of a 0x24 frame holds 10 times the unsigned word
  at offset 11.
\<close>

theorem C9_divide_by_tenth:
  "(0 \<le> v \<and> v < 65536 \<longrightarrow> js_div (of_int v) (js_lit (1 / 10)) = 10 * of_int v) \<and>
   0 \<le> u16 buffer 11 \<and> u16 buffer 11 < 65536 \<and>
   (37 \<le> length buffer \<longrightarrow>
      (\<exists>updates. decode_0x24 folder buffer = Inr updates \<and>
         map_of updates (folder @ ''.total_discharge_capacity'') =
           Some \<lparr>upd_value = Number (10 * of_int (u16 buffer 11)), upd_unit = Some ''AH'',
                 upd_role = ''value'', upd_ctype = ''number''\<rparr>))"
  using js_div_tenth [of v] u16_range [of buffer 11]
    total_discharge_capacity_entry [of buffer folder]
  by blast

theorem C9_divide_by_tenth_witness:
  "(0 :: int) \<le> 1234 \<and> (1234 :: int) < 65536 \<and>
   js_div (of_int 1234) (js_lit (1 / 10)) = 10 * of_int 1234 \<and>
   37 \<le> length sample_0x24 \<and> u16 sample_0x24 11 = 1234 \<and>
   (\<exists>updates. decode_0x24 ''bms_0'' sample_0x24 = Inr updates \<and>
      map_of updates (''bms_0'' @ ''.total_discharge_capacity'') =
        Some \<lparr>upd_value = Number 12340, upd_unit = Some ''AH'',
              upd_role = ''value'', upd_ctype = ''number''\<rparr>)"
proof -
  have u: "u16 sample_0x24 11 = 1234"
    by (simp add: u16_def sample_0x24_def)
  show ?thesis
    using C9_divide_by_tenth [of 1234 sample_0x24 "''bms_0''"]
    by (simp add: u sample_0x24_header)
qed

lemma js_div_5200: "js_div 5200 100 = 52"
  by (simp add: js_div_def fl_52)

lemma js_div_minus_150: "js_div (- 150) 100 = - 3 / 2"
  using fl_minus_3_2 by (simp add: js_div_def)

lemma celsius_2981: "celsius 2981 = 109731260452045 / 4398046511104"
proof -
  have "fl (2981 / 10) - fl (27315 / 100) = 109731260452045 / 4398046511104"
    unfolding fl_298_1 fl_273_15 by simp
  then show ?thesis
    by (simp only: celsius_def js_sub_def js_div_def js_lit_def fl_diff)
qed

lemma telemetry_entries:
  assumes "37 \<le> length buffer"
  shows "\<exists>updates. decode_0x24 folder buffer = Inr updates \<and>
     map_of updates (folder @ ''.pack_voltage'') =
       Some \<lparr>upd_value = Number (js_div (of_int (u16 buffer 3)) 100), upd_unit = Some ''V'',
             upd_role = ''value.voltage'', upd_ctype = ''number''\<rparr> \<and>
     map_of updates (folder @ ''.current'') =
       Some \<lparr>upd_value = Number (js_div (of_int (i16 buffer 5)) 100), upd_unit = Some ''A'',
             upd_role = ''value.current'', upd_ctype = ''number''\<rparr> \<and>
     map_of updates (folder @ ''.average_cell_temp'') =
       Some \<lparr>upd_value = Number (celsius (of_int (i16 buffer 21))), upd_unit = Some degC,
             upd_role = ''value.temperature'', upd_ctype = ''number''\<rparr> \<and>
     map_of updates (folder @ ''.max_cell_temp'') =
       Some \<lparr>upd_value = Number (celsius (of_int (u16 buffer 27))), upd_unit = Some degC,
             upd_role = ''value.temperature'', upd_ctype = ''number''\<rparr> \<and>
     map_of updates (folder @ ''.min_cell_temp'') =
       Some \<lparr>upd_value = Number (celsius (of_int (u16 buffer 29))), upd_unit = Some degC,
             upd_role = ''value.temperature'', upd_ctype = ''number''\<rparr>"
  by (simp add: decode_0x24_Inr [OF assms])

text \<open>
  Claim C5, as amended. The 0x24 decoder reads big-endian 16-bit fields at fixed offsets
  with fixed scales: pack voltage is the unsigned word at offset 3 divided by 100 (raw 5200
  decodes to exactly 52), current is the signed word at offset 5 divided by 100 (raw -150
  decodes to exactly -1.5), and every temperature field (offsets 21, 27 and 29) is
  raw / 10 - 273.15. These are binary64 operations: raw 2981 decodes to
  109731260452045 / 2^42 = 24.950000000000045..., which is within 10^-13 of 24.95.
\<close>

theorem C5_telemetry_fields:
  "(37 \<le> length buffer \<longrightarrow>
     (\<exists>updates. decode_0x24 folder buffer = Inr updates \<and>
        map_of updates (folder @ ''.pack_voltage'') =
          Some \<lparr>upd_value = Number (js_div (of_int (u16 buffer 3)) 100), upd_unit = Some ''V'',
                upd_role = ''value.voltage'', upd_ctype = ''number''\<rparr> \<and>
        map_of updates (folder @ ''.current'') =
          Some \<lparr>upd_value = Number (js_div (of_int (i16 buffer 5)) 100), upd_unit = Some ''A'',
                upd_role = ''value.current'', upd_ctype = ''number''\<rparr> \<and>
        map_of updates (folder @ ''.average_cell_temp'') =
          Some \<lparr>upd_value = Number (celsius (of_int (i16 buffer 21))), upd_unit = Some degC,
                upd_role = ''value.temperature'', upd_ctype = ''number''\<rparr> \<and>
        map_of updates (folder @ ''.max_cell_temp'') =
          Some \<lparr>upd_value = Number (celsius (of_int (u16 buffer 27))), upd_unit = Some degC,
                upd_role = ''value.temperature'', upd_ctype = ''number''\<rparr> \<and>
        map_of updates (folder @ ''.min_cell_temp'') =
          Some \<lparr>upd_value = Number (celsius (of_int (u16 buffer 29))), upd_unit = Some degC,
                upd_role = ''value.temperature'', upd_ctype = ''number''\<rparr>)) \<and>
   u16 buffer offset = uint (buffer ! offset) * 256 + uint (buffer ! (offset + 1)) \<and>
   i16 buffer offset =
     (if 32768 \<le> u16 buffer offset then u16 buffer offset - 65536 else u16 buffer offset) \<and>
   celsius raw = js_sub (js_div raw 10) (js_lit (27315 / 100)) \<and>
   js_div 5200 100 = 52 \<and>
   js_div (- 150) 100 = - 3 / 2 \<and>
   celsius 2981 = 109731260452045 / 4398046511104 \<and>
   \<bar>celsius 2981 - 2495 / 100\<bar> < 1 / 10 ^ 13"
proof -
  have "\<bar>celsius 2981 - 2495 / 100\<bar> < 1 / 10 ^ 13"
    by (simp add: celsius_2981)
  then show ?thesis
    using telemetry_entries [of buffer folder] js_div_5200 js_div_minus_150 celsius_2981
    by (simp add: u16_def i16_def Let_def celsius_def)
qed

lemma sample_0x24_raw:
  "u16 sample_0x24 3 = 5200 \<and> i16 sample_0x24 5 = - 150 \<and> i16 sample_0x24 21 = 2981"
  by (simp add: u16_def i16_def sample_0x24_def)

theorem C5_telemetry_fields_witness:
  "37 \<le> length sample_0x24 \<and>
   (\<exists>updates. decode_0x24 ''bms_0'' sample_0x24 = Inr updates \<and>
      map_of updates (''bms_0'' @ ''.pack_voltage'') =
        Some \<lparr>upd_value = Number 52, upd_unit = Some ''V'',
              upd_role = ''value.voltage'', upd_ctype = ''number''\<rparr> \<and>
      map_of updates (''bms_0'' @ ''.current'') =
        Some \<lparr>upd_value = Number (- 3 / 2), upd_unit = Some ''A'',
              upd_role = ''value.current'', upd_ctype = ''number''\<rparr> \<and>
      map_of updates (''bms_0'' @ ''.average_cell_temp'') =
        Some \<lparr>upd_value = Number (109731260452045 / 4398046511104), upd_unit = Some degC,
              upd_role = ''value.temperature'', upd_ctype = ''number''\<rparr>)"
proof -
  have len: "37 \<le> length sample_0x24"
    by (simp add: sample_0x24_header)
  obtain updates where u: "decode_0x24 ''bms_0'' sample_0x24 = Inr updates"
    "map_of updates (''bms_0'' @ ''.pack_voltage'') =
       Some \<lparr>upd_value = Number (js_div (of_int (u16 sample_0x24 3)) 100), upd_unit = Some ''V'',
             upd_role = ''value.voltage'', upd_ctype = ''number''\<rparr>"
    "map_of updates (''bms_0'' @ ''.current'') =
       Some \<lparr>upd_value = Number (js_div (of_int (i16 sample_0x24 5)) 100), upd_unit = Some ''A'',
             upd_role = ''value.current'', upd_ctype = ''number''\<rparr>"
    "map_of updates (''bms_0'' @ ''.average_cell_temp'') =
       Some \<lparr>upd_value = Number (celsius (of_int (i16 sample_0x24 21))), upd_unit = Some degC,
             upd_role = ''value.temperature'', upd_ctype = ''number''\<rparr>"
    using C5_telemetry_fields [of sample_0x24 "''bms_0''" 0 0] len by blast
  have v: "js_div (of_int (u16 sample_0x24 3)) 100 = 52"
    and c: "js_div (of_int (i16 sample_0x24 5)) 100 = - 3 / 2"
    and t: "celsius (of_int (i16 sample_0x24 21)) = 109731260452045 / 4398046511104"
    using C5_telemetry_fields [of sample_0x24 "''bms_0''" 0 0]
    by (simp_all add: sample_0x24_raw)
  show ?thesis
    using len u unfolding v c t by blast
qed

text \<open>
  The claim as stated fails for the temperature: the number decoded from raw 2981 is
  neither the real number 24.95 nor the binary64 number that the literal 24.95 denotes.
\<close>

theorem C5_temperature_counterexample:
  "i16 sample_0x24 21 = 2981 \<and>
   celsius (of_int (i16 sample_0x24 21)) \<noteq> 2495 / 100 \<and>
   celsius (of_int (i16 sample_0x24 21)) \<noteq> js_lit (2495 / 100)"
proof -
  have raw: "i16 sample_0x24 21 = 2981"
    by (simp add: sample_0x24_raw)
  have "celsius 2981 \<noteq> 2495 / 100" and "celsius 2981 \<noteq> js_lit (2495 / 100)"
    unfolding celsius_2981 js_lit_def fl_24_95 by simp_all
  then show ?thesis
    by (simp add: raw)
qed

subsection \<open>The earlier revision of the header check\<close>

text \<open>
  Every header of the earlier revision is a header of the latest one, with the same
  declared length.
\<close>

lemma isValidHeader_main_imp:
  assumes "isValidHeader_main buffer"
  shows "isValidHeader buffer \<and> getExpectedLength_main buffer = getExpectedLength buffer"
  using assms
  by (auto simp add: isValidHeader_main_def isValidHeader_def getExpectedLength_main_def
      getExpectedLength_def)

subsection \<open>The sample alarm frame\<close>

lemma sample_0x12_ok: "frame_ok sample_0x12"
proof -
  have hdr: "isValidHeader sample_0x12 \<and> length sample_0x12 = 23 \<and>
      getExpectedLength sample_0x12 = 23"
    by (simp add: sample_0x12_def isValidHeader_def getExpectedLength_def js_at_def address_ok_def)
  have "calculateModbusCRC (take 21 sample_0x12) = 0xC4F4"
    by (simp add: sample_0x12_def calculateModbusCRC_def crc_byte_def funpow8 crc_shift_def)
  then have "validateCRC sample_0x12 23"
    using validateCRC_iff [of 23 sample_0x12] by (simp add: sample_0x12_def)
  then show ?thesis
    using hdr by (simp add: frame_ok_def)
qed

lemma sample_0x12_alone: "processStream [] sample_0x12 = ([], [sample_0x12])"
proof -
  have "processStream [] ([] @ sample_0x12) =
        ([], if validateCRC sample_0x12 (int (length sample_0x12)) then [sample_0x12] else [])"
    using sample_0x12_ok by (intro processStream_resync) (simp_all add: frame_ok_def)
  then show ?thesis
    using sample_0x12_ok by (simp add: frame_ok_def)
qed

end
